theory Spec2Isabelle
  imports Main "HOL-Library.AList" "HOL-Library.Sublist"
begin

section \<open>Strings and paths\<close>

text \<open>
  Python's \<^verbatim>\<open>str.replace(old, new)\<close> for a one-character \<^verbatim>\<open>old\<close>: every occurrence
  of the character is replaced, left to right, by the string \<^verbatim>\<open>new\<close>.
\<close>

fun replace :: "char \<Rightarrow> string \<Rightarrow> string \<Rightarrow> string" where
  "replace old new [] = []"
| "replace old new (c # cs) = (if c = old then new @ replace old new cs else c # replace old new cs)"

text \<open>
  \<^verbatim>\<open>str(n)\<close> and the \<^verbatim>\<open>{n}\<close> of an f-string for a Python \<^verbatim>\<open>int\<close>: decimal digits, most
  significant first, with a leading minus sign for a negative number.
\<close>

definition digit_char :: "nat \<Rightarrow> char" where
  "digit_char d = ''0123456789'' ! d"

fun str_nat :: "nat \<Rightarrow> string" where
  "str_nat n = (if n < 10 then [digit_char n] else str_nat (n div 10) @ [digit_char (n mod 10)])"

declare str_nat.simps [simp del]

definition str_int :: "int \<Rightarrow> string" where
  "str_int i = (if i < 0 then CHR ''-'' # str_nat (nat (- i)) else str_nat (nat i))"

text \<open>
  \<^verbatim>\<open>str.lower\<close>, \<^verbatim>\<open>str.upper\<close> and \<^verbatim>\<open>str.capitalize\<close> on the ASCII letters (a \<^typ>\<open>char\<close> is
  a byte; the other bytes are left as they are).
\<close>

definition lower_char :: "char \<Rightarrow> char" where
  "lower_char c =
     (case map_of (zip ''ABCDEFGHIJKLMNOPQRSTUVWXYZ'' ''abcdefghijklmnopqrstuvwxyz'') c of
        Some l \<Rightarrow> l | None \<Rightarrow> c)"

definition upper_char :: "char \<Rightarrow> char" where
  "upper_char c =
     (case map_of (zip ''abcdefghijklmnopqrstuvwxyz'' ''ABCDEFGHIJKLMNOPQRSTUVWXYZ'') c of
        Some u \<Rightarrow> u | None \<Rightarrow> c)"

definition lower :: "string \<Rightarrow> string" where
  "lower s = map lower_char s"

definition capitalize :: "string \<Rightarrow> string" where
  "capitalize s = (case s of [] \<Rightarrow> [] | c # cs \<Rightarrow> upper_char c # map lower_char cs)"

text \<open>\<^verbatim>\<open>os.path.join(a, b)\<close> of \<^verbatim>\<open>posixpath\<close>, which the driver uses for the output paths.\<close>

definition path_join :: "string \<Rightarrow> string \<Rightarrow> string" where
  "path_join a b =
     (if b \<noteq> [] \<and> hd b = CHR ''/'' then b
      else if a = [] \<or> last a = CHR ''/'' then a @ b
      else a @ ''/'' @ b)"

text \<open>
  How \<^verbatim>\<open>pathlib\<close> reads a POSIX path: the text is cut at every slash; the root is the
  leading slash (two leading slashes are kept as they are, three or more count as one); the
  parts are the pieces that are neither empty nor a single dot. \<^verbatim>\<open>str(Path(p))\<close> is the root
  followed by the parts with one slash between them, and a dot when there is neither.
\<close>

fun split_slash :: "string \<Rightarrow> string list" where
  "split_slash [] = [[]]"
| "split_slash (c # cs) =
     (if c = CHR ''/'' then [] # split_slash cs
      else (case split_slash cs of [] \<Rightarrow> [[c]] | x # xs \<Rightarrow> (c # x) # xs))"

definition components :: "string \<Rightarrow> string list" where
  "components p = filter (\<lambda>c. c \<noteq> [] \<and> c \<noteq> ''.'') (split_slash p)"

definition path_root :: "string \<Rightarrow> string" where
  "path_root p =
     (case p of
        [] \<Rightarrow> []
      | c1 # rest \<Rightarrow>
          if c1 \<noteq> CHR ''/'' then []
          else (case rest of
                  [] \<Rightarrow> ''/''
                | c2 # rest2 \<Rightarrow>
                    if c2 = CHR ''/'' \<and> (case rest2 of [] \<Rightarrow> True | c3 # _ \<Rightarrow> c3 \<noteq> CHR ''/'')
                    then ''//'' else ''/''))"

fun join_slash :: "string list \<Rightarrow> string" where
  "join_slash [] = []"
| "join_slash [c] = c"
| "join_slash (c # cs) = c @ ''/'' @ join_slash cs"

definition normalise :: "string \<Rightarrow> string" where
  "normalise p =
     (if path_root p = [] \<and> components p = [] then ''.''
      else path_root p @ join_slash (components p))"

text \<open>\<^verbatim>\<open>str(Path(a) / b)\<close>: the segments are joined as \<^verbatim>\<open>posixpath\<close> does, then read.\<close>

definition pathlib_join :: "string \<Rightarrow> string \<Rightarrow> string" where
  "pathlib_join a b = normalise (path_join a b)"

text \<open>\<^verbatim>\<open>Path(p).name\<close>: the last part, empty when there is none.\<close>

definition path_name :: "string \<Rightarrow> string" where
  "path_name p = (if components p = [] then [] else last (components p))"

text \<open>
  \<^verbatim>\<open>Path(p).suffix\<close>: the name from its last dot on, when that dot is neither the first nor
  the last character of the name; empty otherwise.
\<close>

definition path_suffix :: "string \<Rightarrow> string" where
  "path_suffix p =
     (let name = path_name p;
          tl_part = rev (takeWhile (\<lambda>c. c \<noteq> CHR ''.'') (rev name))
      in if CHR ''.'' \<in> set name \<and> tl_part \<noteq> [] \<and> length tl_part + 1 < length name
         then CHR ''.'' # tl_part else [])"

text \<open>
  \<^verbatim>\<open>p\<close> is an entry of the directory \<^verbatim>\<open>d\<close> itself, as \<^verbatim>\<open>Path(d).iterdir()\<close> and
  \<^verbatim>\<open>Path(d).glob(pattern)\<close> yield them: same root, and the parts of \<^verbatim>\<open>d\<close> followed by one more.
\<close>

definition is_child :: "string \<Rightarrow> string \<Rightarrow> bool" where
  "is_child d p =
     (path_root p = path_root d \<and> components p \<noteq> [] \<and> butlast (components p) = components d)"

section \<open>Constants of the script\<close>

definition SAINT_CATEGORIES :: "string list" where
  "SAINT_CATEGORIES =
     [''11F(MARY)'', ''11H(ANTONY ABBOT)'', ''11H(ANTONY OF PADUA)'', ''11H(AUGUSTINE)'',
      ''11H(DOMINIC)'', ''11H(FRANCIS)'', ''11H(JEROME)'', ''11H(JOHN THE BAPTIST)'',
      ''11H(JOHN)'', ''11H(JOSEPH)'', ''11H(PAUL)'', ''11H(PETER)'', ''11H(SEBASTIAN)'',
      ''11H(STEPHEN)'', ''11HH(BARBARA)'', ''11HH(CATHERINE)'', ''11HH(MARY MAGDALENE)'']"

text \<open>The probe list of \<^verbatim>\<open>find_image_file\<close>.\<close>

definition extensions :: "string list" where
  "extensions =
     [''.jpg'', ''.jpeg'', ''.png'', ''.tif'', ''.tiff'',
      ''.JPG'', ''.JPEG'', ''.PNG'', ''.TIF'', ''.TIFF'']"

text \<open>The list the driver uses to see whether the images directory holds any image.\<close>

definition image_extensions :: "string list" where
  "image_extensions = [''.jpg'', ''.jpeg'', ''.png'', ''.tif'', ''.tiff'']"

section \<open>The images directory\<close>

text \<open>
  A regular file of the images directory is either an image that PIL can open, with its
  \<^verbatim>\<open>size\<close> (width, height), or a file on which \<^verbatim>\<open>Image.open\<close> raises, with the text of the
  exception. The listing holds the regular files at and below the images directory, each
  under its path as \<^verbatim>\<open>pathlib\<close> prints it.
\<close>

datatype image = Readable int int | Unreadable string

type_synonym directory = "(string \<times> image) list"

definition path_exists :: "directory \<Rightarrow> string \<Rightarrow> bool" where
  "path_exists dir p = (map_of dir p \<noteq> None)"

text \<open>\<^verbatim>\<open>Image.open(path).size\<close>: the size, or the exception's text.\<close>

definition image_open_size :: "directory \<Rightarrow> string \<Rightarrow> string + (int \<times> int)" where
  "image_open_size dir p =
     (case map_of dir p of
        None \<Rightarrow> Inl (''[Errno 2] No such file or directory: '' @ [CHR 0x27] @ p @ [CHR 0x27])
      | Some (Unreadable msg) \<Rightarrow> Inl msg
      | Some (Readable w h) \<Rightarrow> Inr (w, h))"

text \<open>
  \<^verbatim>\<open>get_image_dimensions\<close>: the size and the lines written to standard error. The
  \<^verbatim>\<open>except Exception\<close> branch is the \<open>Inl\<close> case.
\<close>

definition get_image_dimensions :: "directory \<Rightarrow> string \<Rightarrow> (int \<times> int) \<times> string list" where
  "get_image_dimensions dir image_path =
     (case image_open_size dir image_path of
        Inr sz \<Rightarrow> (sz, [])
      | Inl e \<Rightarrow>
          ((1000, 1000),
           [''Warning: Could not read dimensions for '' @ image_path @ '': '' @ e]))"

text \<open>
  \<^verbatim>\<open>find_image_file\<close>: the loop over the extension list, returning at the first path that
  exists.
\<close>

fun probe :: "directory \<Rightarrow> string \<Rightarrow> string \<Rightarrow> string list \<Rightarrow> string option" where
  "probe dir images_dir item_id [] = None"
| "probe dir images_dir item_id (ext # exts) =
     (let image_file = pathlib_join images_dir (item_id @ ext)
      in if path_exists dir image_file then Some image_file
         else probe dir images_dir item_id exts)"

definition find_image_file :: "directory \<Rightarrow> string \<Rightarrow> string \<Rightarrow> string option" where
  "find_image_file dir item_id images_dir = probe dir images_dir item_id extensions"

section \<open>The IIIF documents\<close>

text \<open>
  The dictionaries that \<^verbatim>\<open>create_canvas\<close> and \<^verbatim>\<open>create_multi_image_manifest\<close> build, one
  record per dictionary, one field per key. A language map \<^verbatim>\<open>{"en": [s]}\<close> is an association
  list.
\<close>

type_synonym lang_map = "(string \<times> string list) list"

record image_service =
  service_id :: string
  service_type :: string
  service_profile :: string

record body =
  body_id :: string
  body_type :: string
  body_format :: string
  body_height :: int
  body_width :: int
  body_service :: "image_service list"

record annotation =
  annotation_id :: string
  annotation_type :: string
  annotation_motivation :: string
  annotation_body :: body
  annotation_target :: string

record annotation_page =
  page_id :: string
  page_type :: string
  page_items :: "annotation list"

record canvas =
  canvas_id :: string
  canvas_type :: string
  canvas_label :: lang_map
  canvas_height :: int
  canvas_width :: int
  canvas_items :: "annotation_page list"

record manifest =
  manifest_context :: string
  manifest_id :: string
  manifest_type :: string
  manifest_label :: lang_map
  manifest_summary :: lang_map
  manifest_items :: "canvas list"

definition create_canvas ::
  "string \<Rightarrow> string \<Rightarrow> string \<Rightarrow> int \<Rightarrow> int \<Rightarrow> int \<Rightarrow> string \<Rightarrow> canvas" where
  "create_canvas item_id image_filename base_url width height canvas_index mid =
     (let image_service_url = base_url @ ''/iiif/3/'' @ image_filename
      in \<lparr>canvas_id = base_url @ ''/collections/'' @ mid @ ''/canvas/'' @ str_int canvas_index,
          canvas_type = ''Canvas'',
          canvas_label = [(''en'', [item_id])],
          canvas_height = height,
          canvas_width = width,
          canvas_items =
            [\<lparr>page_id = base_url @ ''/collections/'' @ mid @ ''/page/'' @ str_int canvas_index,
              page_type = ''AnnotationPage'',
              page_items =
                [\<lparr>annotation_id =
                    base_url @ ''/collections/'' @ mid @ ''/annotation/'' @ str_int canvas_index,
                  annotation_type = ''Annotation'',
                  annotation_motivation = ''painting'',
                  annotation_body =
                    \<lparr>body_id = image_service_url @ ''/full/max/0/default.jpg'',
                     body_type = ''Image'',
                     body_format = ''image/jpeg'',
                     body_height = height,
                     body_width = width,
                     body_service =
                       [\<lparr>service_id = image_service_url,
                         service_type = ''ImageService3'',
                         service_profile = ''level2''\<rparr>]\<rparr>,
                  annotation_target =
                    base_url @ ''/collections/'' @ mid @ ''/canvas/'' @ str_int canvas_index\<rparr>]\<rparr>]\<rparr>)"

section \<open>The manifest builder\<close>

text \<open>
  The state of the loop of \<^verbatim>\<open>create_multi_image_manifest\<close>: the canvases appended to
  \<^verbatim>\<open>manifest["items"]\<close>, the locals \<^verbatim>\<open>canvas_index\<close> and \<^verbatim>\<open>skipped\<close>, and the warnings
  written to standard error by \<^verbatim>\<open>get_image_dimensions\<close>.
\<close>

record build_state =
  items :: "canvas list"
  canvas_index :: int
  skipped :: int
  warnings :: "string list"

text \<open>
  One pass of the loop body. \<^verbatim>\<open>if not image_file\<close> holds for \<^verbatim>\<open>None\<close> and for the empty
  string.
\<close>

definition add_image ::
  "directory \<Rightarrow> string \<Rightarrow> string \<Rightarrow> string \<Rightarrow> string \<Rightarrow> build_state \<Rightarrow> build_state" where
  "add_image dir images_dir base_url mid item_id st =
     (case find_image_file dir item_id images_dir of
        None \<Rightarrow> st\<lparr>skipped := skipped st + 1\<rparr>
      | Some image_file \<Rightarrow>
          if image_file = [] then st\<lparr>skipped := skipped st + 1\<rparr>
          else
            (let ((width, height), warned) = get_image_dimensions dir image_file;
                 image_filename = path_name image_file;
                 canvas = create_canvas item_id image_filename base_url width height
                            (canvas_index st) mid
             in st\<lparr>items := items st @ [canvas],
                   canvas_index := canvas_index st + 1,
                   warnings := warnings st @ warned\<rparr>))"

fun add_images ::
  "directory \<Rightarrow> string \<Rightarrow> string \<Rightarrow> string \<Rightarrow> string list \<Rightarrow> build_state \<Rightarrow> build_state" where
  "add_images dir images_dir base_url mid [] st = st"
| "add_images dir images_dir base_url mid (item_id # image_ids) st =
     add_images dir images_dir base_url mid image_ids
       (add_image dir images_dir base_url mid item_id st)"

definition initial_state :: build_state where
  "initial_state = \<lparr>items = [], canvas_index = 1, skipped = 0, warnings = []\<rparr>"

text \<open>
  The output directory: its files, each under its path, with the document written to it.
  \<^verbatim>\<open>open(output_path, 'w')\<close> followed by \<^verbatim>\<open>json.dump\<close> replaces the file's content or creates
  the file; the write is taken to succeed.
\<close>

type_synonym files = "(string \<times> manifest) list"

text \<open>
  What a call of \<^verbatim>\<open>create_multi_image_manifest\<close> leaves behind: the dictionary it returns,
  the output files, the final value of \<^verbatim>\<open>skipped\<close> and the warnings.
\<close>

record build_result =
  returned :: manifest
  written :: files
  skipped_count :: int
  stderr :: "string list"

definition create_multi_image_manifest ::
  "string \<Rightarrow> string \<Rightarrow> string \<Rightarrow> string list \<Rightarrow> string \<Rightarrow> string \<Rightarrow> string \<Rightarrow> directory \<Rightarrow> files
     \<Rightarrow> build_result" where
  "create_multi_image_manifest mid label description image_ids images_dir base_url output_path
       dir out =
     (let st = add_images dir images_dir base_url mid image_ids initial_state;
          m = \<lparr>manifest_context = ''http://iiif.io/api/presentation/3/context.json'',
               manifest_id = base_url @ ''/collections/'' @ mid @ ''.json'',
               manifest_type = ''Manifest'',
               manifest_label = [(''en'', [label])],
               manifest_summary = [(''en'', [description])],
               manifest_items = items st\<rparr>
      in \<lparr>returned = m,
          written = AList.update output_path m out,
          skipped_count = skipped st,
          stderr = warnings st\<rparr>)"

section \<open>The catalog loader\<close>

text \<open>
  A row as \<^verbatim>\<open>csv.DictReader\<close> yields it: a dictionary from the column names of the header
  to the cells of the row. \<^verbatim>\<open>row['item']\<close> and \<^verbatim>\<open>row['set']\<close> raise \<^verbatim>\<open>KeyError\<close> when the
  header has no such column.
\<close>

type_synonym row = "string \<rightharpoonup> string"

datatype py_error = KeyError string

type_synonym buckets = "(string \<times> string list) list"

definition append_to :: "string \<Rightarrow> string \<Rightarrow> buckets \<Rightarrow> buckets" where
  "append_to key item_id data = AList.map_entry key (\<lambda>ids. ids @ [item_id]) data"

definition add_saints :: "row \<Rightarrow> string \<Rightarrow> buckets \<Rightarrow> buckets" where
  "add_saints r item_id saint_data =
     fold (\<lambda>saint data. if r saint = Some ''1'' then append_to saint item_id data else data)
       SAINT_CATEGORIES saint_data"

fun load_rows :: "row list \<Rightarrow> buckets \<times> buckets \<times> string list
     \<Rightarrow> py_error + (buckets \<times> buckets \<times> string list)" where
  "load_rows [] acc = Inr acc"
| "load_rows (r # rs) (set_data, saint_data, all_items) =
     (case r ''item'' of
        None \<Rightarrow> Inl (KeyError ''item'')
      | Some item_id \<Rightarrow>
          (case r ''set'' of
             None \<Rightarrow> Inl (KeyError ''set'')
           | Some set_name \<Rightarrow>
               load_rows rs
                 (if set_name \<in> set (map fst set_data) then append_to set_name item_id set_data
                  else set_data,
                  add_saints r item_id saint_data,
                  all_items @ [item_id])))"

definition load_csv_data :: "row list \<Rightarrow> py_error + (buckets \<times> buckets \<times> string list)" where
  "load_csv_data rows =
     load_rows rows
       ([(''train'', []), (''test'', []), (''val'', [])],
        map (\<lambda>saint. (saint, [])) SAINT_CATEGORIES,
        [])"

text \<open>
  \<^verbatim>\<open>sanitize_filename\<close>:
  \<^verbatim>\<open>name.replace('(', '_').replace(')', '').replace(' ', '_')\<close>.
\<close>

definition sanitize_filename :: "string \<Rightarrow> string" where
  "sanitize_filename name =
     replace CHR '' '' ''_'' (replace CHR '')'' '''' (replace CHR ''('' ''_'' name))"

section \<open>The generation driver\<close>

text \<open>
  The command-line options of \<^verbatim>\<open>generate_manifests\<close>, with the three directories already
  resolved to absolute paths, and what the run finds on disk: the rows of the catalog file,
  the images directory and the output directory, each absent (\<open>None\<close>) or present. What the
  driver prints to standard output is not part of the model.
\<close>

record options =
  opt_images_dir :: string
  opt_output_dir :: string
  opt_base_url :: string
  opt_sample_size :: int
  opt_generate_splits :: bool
  opt_generate_saints :: bool
  opt_generate_all :: bool
  opt_force :: bool

record world =
  csv :: "row list option"
  images :: "directory option"
  out_dir :: "files option"

text \<open>How a run ends: at one of the early returns, by an exception, or at the summary
  with the number of manifests generated.\<close>

datatype outcome =
  CsvNotFound | ImagesDirNotFound | NoImageFiles | ManifestsExist
  | Raised py_error | Completed nat

definition set_descriptions :: "(string \<times> string) list" where
  "set_descriptions =
     [(''train'', ''Training set images from the ArtDL dataset''),
      (''test'', ''Test set images from the ArtDL dataset''),
      (''val'', ''Validation set images from the ArtDL dataset'')]"

text \<open>
  \<^verbatim>\<open>[f for f in images_path.iterdir() if f.is_file() and f.suffix.lower() in image_extensions]\<close>:
  of the listed files, those that lie in the images directory itself (files in a subdirectory
  are not entries of \<^verbatim>\<open>iterdir()\<close>) and have an image suffix.
\<close>

definition image_files :: "string \<Rightarrow> directory \<Rightarrow> string list" where
  "image_files images_dir dir =
     filter (\<lambda>f. is_child images_dir f \<and> lower (path_suffix f) \<in> set image_extensions)
       (map fst dir)"

text \<open>
  \<^verbatim>\<open>list(output_path.glob('*.json'))\<close>: the files that lie in the output directory itself
  and whose name ends in \<^verbatim>\<open>.json\<close>. The output directory is taken to hold files only.
\<close>

definition manifest_files :: "string \<Rightarrow> files \<Rightarrow> string list" where
  "manifest_files output_dir out =
     filter (\<lambda>f. is_child output_dir f \<and> suffix ''.json'' (path_name f)) (map fst out)"

text \<open>
  The loop over \<^verbatim>\<open>set_data.items()\<close>. It carries the output files and
  \<^verbatim>\<open>manifests_generated\<close>; a \<^verbatim>\<open>KeyError\<close> of \<^verbatim>\<open>set_descriptions[set_name]\<close> ends it.
\<close>

fun split_loop ::
  "options \<Rightarrow> directory \<Rightarrow> buckets \<Rightarrow> files \<times> nat \<Rightarrow> py_error option \<times> files \<times> nat" where
  "split_loop opts dir [] (out, n) = (None, out, n)"
| "split_loop opts dir ((set_name, image_ids) # rest) (out, n) =
     (if image_ids = [] then split_loop opts dir rest (out, n)
      else
        (case map_of set_descriptions set_name of
           None \<Rightarrow> (Some (KeyError set_name), out, n)
         | Some description \<Rightarrow>
             split_loop opts dir rest
               (written
                  (create_multi_image_manifest set_name (capitalize set_name @ '' Set'')
                     description image_ids (opt_images_dir opts) (opt_base_url opts)
                     (path_join (opt_output_dir opts) (set_name @ ''.json'')) dir out),
                n + 1)))"

text \<open>
  The loop over \<^verbatim>\<open>SAINT_CATEGORIES\<close>. It carries the output files and \<^verbatim>\<open>saint_count\<close>; a
  \<^verbatim>\<open>KeyError\<close> of \<^verbatim>\<open>saint_data[saint]\<close> ends it.
\<close>

fun saint_loop ::
  "options \<Rightarrow> directory \<Rightarrow> buckets \<Rightarrow> string list \<Rightarrow> files \<times> nat
     \<Rightarrow> py_error option \<times> files \<times> nat" where
  "saint_loop opts dir saint_data [] (out, n) = (None, out, n)"
| "saint_loop opts dir saint_data (saint # rest) (out, n) =
     (case map_of saint_data saint of
        None \<Rightarrow> (Some (KeyError saint), out, n)
      | Some image_ids \<Rightarrow>
          if image_ids = [] then saint_loop opts dir saint_data rest (out, n)
          else
            saint_loop opts dir saint_data rest
              (written
                 (create_multi_image_manifest (sanitize_filename saint) saint
                    (''Images depicting '' @ saint @ '' from the ArtDL dataset'')
                    image_ids (opt_images_dir opts) (opt_base_url opts)
                    (path_join (opt_output_dir opts) (sanitize_filename saint @ ''.json''))
                    dir out),
               n + 1))"

text \<open>The last part of the driver: the sample manifest.\<close>

definition sample_step :: "options \<Rightarrow> directory \<Rightarrow> string list \<Rightarrow> files \<times> nat \<Rightarrow> files \<times> nat" where
  "sample_step opts dir all_items acc =
     (case acc of (out, n) \<Rightarrow>
        if opt_sample_size opts > 0 then
          (let sample_path = path_join (opt_output_dir opts) ''sample.json''
           in if map_of out sample_path \<noteq> None \<and> \<not> opt_force opts then (out, n)
              else
                (written
                   (create_multi_image_manifest ''sample''
                      (''Sample Collection ('' @ str_int (opt_sample_size opts) @ '' images)'')
                      (''Sample collection of '' @ str_int (opt_sample_size opts)
                         @ '' images from the ArtDL dataset'')
                      (take (nat (opt_sample_size opts)) all_items)
                      (opt_images_dir opts) (opt_base_url opts) sample_path dir out),
                 n + 1))
        else (out, n))"

text \<open>The part of the driver that follows \<^verbatim>\<open>os.makedirs(output_dir, exist_ok=True)\<close>.\<close>

definition generate_from ::
  "options \<Rightarrow> row list \<Rightarrow> directory \<Rightarrow> files \<Rightarrow> outcome \<times> files" where
  "generate_from opts rows dir out0 =
     (let generate_splits = opt_generate_splits opts \<or> opt_generate_all opts;
          generate_saints = opt_generate_saints opts \<or> opt_generate_all opts
      in case load_csv_data rows of
           Inl e \<Rightarrow> (Raised e, out0)
         | Inr (set_data, saint_data, all_items) \<Rightarrow>
             (case (if generate_splits then split_loop opts dir set_data (out0, 0)
                    else (None, out0, 0)) of
                (Some e, out1, n1) \<Rightarrow> (Raised e, out1)
              | (None, out1, n1) \<Rightarrow>
                  (case (if generate_saints
                         then saint_loop opts dir saint_data SAINT_CATEGORIES (out1, 0)
                         else (None, out1, 0)) of
                     (Some e, out2, saint_count) \<Rightarrow> (Raised e, out2)
                   | (None, out2, saint_count) \<Rightarrow>
                       (case sample_step opts dir all_items (out2, n1 + saint_count) of
                          (out3, n3) \<Rightarrow> (Completed n3, out3)))))"

definition generate_manifests :: "options \<Rightarrow> world \<Rightarrow> outcome \<times> world" where
  "generate_manifests opts w =
     (case csv w of
        None \<Rightarrow> (CsvNotFound, w)
      | Some rows \<Rightarrow>
          (case images w of
             None \<Rightarrow> (ImagesDirNotFound, w)
           | Some dir \<Rightarrow>
               if image_files (opt_images_dir opts) dir = [] then (NoImageFiles, w)
               else if (case out_dir w of
                          None \<Rightarrow> False
                        | Some out \<Rightarrow>
                            \<not> opt_force opts
                            \<and> manifest_files (opt_output_dir opts) out \<noteq> [])
               then (ManifestsExist, w)
               else
                 (case generate_from opts rows dir
                         (case out_dir w of None \<Rightarrow> [] | Some out \<Rightarrow> out) of
                    (res, out') \<Rightarrow> (res, w\<lparr>out_dir := Some out'\<rparr>))))"

section \<open>Auxiliary definitions for the properties\<close>

text \<open>What one character becomes under \<^const>\<open>sanitize_filename\<close>.\<close>

definition sanitize_char :: "char \<Rightarrow> string" where
  "sanitize_char c =
     (if c = CHR ''('' \<or> c = CHR '' '' then ''_'' else if c = CHR '')'' then [] else [c])"

text \<open>
  The sanitisation rule in the words of the specification, for comparison with the code:
  each opening parenthesis, closing parenthesis and space becomes an underscore.
\<close>

definition sanitize_as_specified :: "string \<Rightarrow> string" where
  "sanitize_as_specified name =
     map (\<lambda>c. if c = CHR ''('' \<or> c = CHR '')'' \<or> c = CHR '' '' then CHR ''_'' else c) name"

text \<open>An item resolves when \<^const>\<open>find_image_file\<close> finds a file for it.\<close>

definition resolves :: "directory \<Rightarrow> string \<Rightarrow> string \<Rightarrow> bool" where
  "resolves dir images_dir item_id = (find_image_file dir item_id images_dir \<noteq> None)"

text \<open>
  The canvas that the loop body appends for a resolved item when \<^verbatim>\<open>canvas_index\<close> is \<open>k\<close>.
\<close>

definition canvas_for :: "directory \<Rightarrow> string \<Rightarrow> string \<Rightarrow> string \<Rightarrow> int \<Rightarrow> string \<Rightarrow> canvas" where
  "canvas_for dir images_dir base_url mid k item_id =
     (let image_file = the (find_image_file dir item_id images_dir)
      in create_canvas item_id (path_name image_file) base_url
           (fst (fst (get_image_dimensions dir image_file)))
           (snd (fst (get_image_dimensions dir image_file))) k mid)"

text \<open>
  The identifiers nested in a canvas document, outermost first: the Canvas id, then for each
  AnnotationPage its id, for each Annotation its id and the ids of the image services of its
  body.
\<close>

definition nested_ids :: "canvas \<Rightarrow> string list" where
  "nested_ids c =
     canvas_id c #
     concat (map (\<lambda>p. page_id p #
                   concat (map (\<lambda>a. annotation_id a # map service_id (body_service (annotation_body a)))
                             (page_items p)))
               (canvas_items c))"

text \<open>The identifiers of a canvas document that carry the canvas index.\<close>

definition index_ids :: "canvas \<Rightarrow> string list" where
  "index_ids c =
     canvas_id c # concat (map (\<lambda>p. page_id p # map annotation_id (page_items p)) (canvas_items c))"

text \<open>The three identifiers built for canvas index \<open>k\<close> of manifest \<open>mid\<close>.\<close>

definition ids_at :: "string \<Rightarrow> string \<Rightarrow> int \<Rightarrow> string list" where
  "ids_at base_url mid k =
     [base_url @ ''/collections/'' @ mid @ ''/canvas/'' @ str_int k,
      base_url @ ''/collections/'' @ mid @ ''/page/'' @ str_int k,
      base_url @ ''/collections/'' @ mid @ ''/annotation/'' @ str_int k]"

text \<open>
  For the catalog loader: a row has the two columns the loader indexes; the item id of a row;
  the ids of the rows whose \<^verbatim>\<open>set\<close> cell is a given split name, and of those whose cell for a
  given category is \<^verbatim>\<open>1\<close>, in catalog order; the column whose absence makes the loader raise;
  a row whose \<^verbatim>\<open>set\<close> cell is one of the three split names.
\<close>

definition has_columns :: "row \<Rightarrow> bool" where
  "has_columns r = (r ''item'' \<noteq> None \<and> r ''set'' \<noteq> None)"

definition item_of :: "row \<Rightarrow> string" where
  "item_of r = the (r ''item'')"

definition split_bucket :: "row list \<Rightarrow> string \<Rightarrow> string list" where
  "split_bucket rows s = map item_of (filter (\<lambda>r. r ''set'' = Some s) rows)"

definition category_bucket :: "row list \<Rightarrow> string \<Rightarrow> string list" where
  "category_bucket rows c = map item_of (filter (\<lambda>r. r c = Some ''1'') rows)"

definition missing_column :: "row \<Rightarrow> string" where
  "missing_column r = (if r ''item'' = None then ''item'' else ''set'')"

definition known_split :: "row \<Rightarrow> bool" where
  "known_split r = (r ''set'' \<in> {Some ''train'', Some ''test'', Some ''val''})"

text \<open>
  For the driver: the manifest a call of \<^const>\<open>create_multi_image_manifest\<close> returns (it does
  not depend on the output path or on the files already written), and the manifests a run is
  to write, each with its path, in the order the driver writes them: the split manifests of the
  non-empty split buckets, the category manifests of the non-empty category buckets, the
  sample manifest.
\<close>

definition built :: "options \<Rightarrow> directory \<Rightarrow> string \<Rightarrow> string \<Rightarrow> string \<Rightarrow> string list \<Rightarrow> manifest" where
  "built opts dir mid label description image_ids =
     returned (create_multi_image_manifest mid label description image_ids
                 (opt_images_dir opts) (opt_base_url opts) [] dir [])"

definition split_target :: "options \<Rightarrow> directory \<Rightarrow> string \<times> string list \<Rightarrow> string \<times> manifest" where
  "split_target opts dir b =
     (path_join (opt_output_dir opts) (fst b @ ''.json''),
      built opts dir (fst b) (capitalize (fst b) @ '' Set'')
        (the (map_of set_descriptions (fst b))) (snd b))"

definition saint_target :: "options \<Rightarrow> directory \<Rightarrow> row list \<Rightarrow> string \<Rightarrow> string \<times> manifest" where
  "saint_target opts dir rows saint =
     (path_join (opt_output_dir opts) (sanitize_filename saint @ ''.json''),
      built opts dir (sanitize_filename saint) saint
        (''Images depicting '' @ saint @ '' from the ArtDL dataset'')
        (category_bucket rows saint))"

definition sample_target :: "options \<Rightarrow> directory \<Rightarrow> row list \<Rightarrow> string \<times> manifest" where
  "sample_target opts dir rows =
     (path_join (opt_output_dir opts) ''sample.json'',
      built opts dir ''sample''
        (''Sample Collection ('' @ str_int (opt_sample_size opts) @ '' images)'')
        (''Sample collection of '' @ str_int (opt_sample_size opts)
           @ '' images from the ArtDL dataset'')
        (take (nat (opt_sample_size opts)) (map item_of rows)))"

definition front_targets :: "options \<Rightarrow> directory \<Rightarrow> row list \<Rightarrow> (string \<times> manifest) list" where
  "front_targets opts dir rows =
     (if opt_generate_splits opts \<or> opt_generate_all opts
      then map (split_target opts dir)
             (filter (\<lambda>b. snd b \<noteq> [])
                [(''train'', split_bucket rows ''train''), (''test'', split_bucket rows ''test''),
                 (''val'', split_bucket rows ''val'')])
      else [])
     @ (if opt_generate_saints opts \<or> opt_generate_all opts
        then map (saint_target opts dir rows)
               (filter (\<lambda>saint. category_bucket rows saint \<noteq> []) SAINT_CATEGORIES)
        else [])"

definition targets :: "options \<Rightarrow> directory \<Rightarrow> row list \<Rightarrow> (string \<times> manifest) list" where
  "targets opts dir rows =
     front_targets opts dir rows
     @ (if opt_sample_size opts > 0 then [sample_target opts dir rows] else [])"

text \<open>Writing a list of manifests, each to its path, in order.\<close>

definition write_all :: "(string \<times> manifest) list \<Rightarrow> files \<Rightarrow> files" where
  "write_all ts out = fold (\<lambda>t. AList.update (fst t) (snd t)) ts out"

text \<open>The file name stems the driver can write, and the path of a stem.\<close>

definition manifest_names :: "string list" where
  "manifest_names =
     [''train'', ''test'', ''val''] @ map sanitize_filename SAINT_CATEGORIES @ [''sample'']"

definition manifest_path :: "options \<Rightarrow> string \<Rightarrow> string" where
  "manifest_path opts name = path_join (opt_output_dir opts) (name @ ''.json'')"

text \<open>
  Example inputs: a run with the default options (a sample of 10, no other mode, no force) over
  an output directory that already holds \<^verbatim>\<open>train.json\<close>; a run in sample mode with sample size
  3 over the catalog of the items a, b, c, d and an images directory with a file for each.
\<close>

definition old_train :: manifest where
  "old_train =
     \<lparr>manifest_context = ''http://iiif.io/api/presentation/3/context.json'',
      manifest_id = ''http://h/collections/train.json'',
      manifest_type = ''Manifest'',
      manifest_label = [(''en'', [''Train Set''])],
      manifest_summary = [(''en'', [''Training set images from the ArtDL dataset''])],
      manifest_items = []\<rparr>"



definition abcd_world :: world where
  "abcd_world =
     \<lparr>csv = Some [[''item'' \<mapsto> ''a'', ''set'' \<mapsto> ''train''], [''item'' \<mapsto> ''b'', ''set'' \<mapsto> ''test''],
                  [''item'' \<mapsto> ''c'', ''set'' \<mapsto> ''val''], [''item'' \<mapsto> ''d'', ''set'' \<mapsto> ''train'']],
      images = Some [(''/img/a.jpg'', Readable 640 480), (''/img/b.png'', Readable 10 20),
                     (''/img/c.jpg'', Unreadable ''truncated''), (''/img/d.jpg'', Readable 1 1)],
      out_dir = None\<rparr>"

definition three_options :: options where
  "three_options =
     \<lparr>opt_images_dir = ''/img'', opt_output_dir = ''/out'', opt_base_url = ''http://h'',
      opt_sample_size = 3, opt_generate_splits = False, opt_generate_saints = False,
      opt_generate_all = False, opt_force = False\<rparr>"

section \<open>Properties\<close>

subsection \<open>Sanitising a category label\<close>

lemma replace_append: "replace old new (xs @ ys) = replace old new xs @ replace old new ys"
  by (induction xs) auto

lemma sanitize_concat: "sanitize_filename name = concat (map sanitize_char name)"
  by (induction name) (auto simp: sanitize_filename_def sanitize_char_def replace_append)

lemma sanitize_chars:
  "set (sanitize_filename name) \<subseteq> set name - {CHR ''('', CHR '')'', CHR '' ''} \<union> {CHR ''_''}"
  unfolding sanitize_concat by (induction name) (auto simp: sanitize_char_def)

text \<open>
  C8, as stated, fails: the rule "replace the two parentheses and the space by underscores"
  turns \<^verbatim>\<open>11H(JEROME)\<close> into \<^verbatim>\<open>11H_JEROME_\<close>, which is not what the code returns (and
  not what the claim's own example says).
\<close>

theorem sanitize_underscore_counterexample:
  "sanitize_filename ''11H(JEROME)'' \<noteq> sanitize_as_specified ''11H(JEROME)''"
  by (simp add: sanitize_filename_def sanitize_as_specified_def)

text \<open>
  C8, amended: sanitising is a function of the label alone that works character by
  character: an opening parenthesis and a space each become one underscore, a closing
  parenthesis is deleted, every other character is kept. The result holds no parenthesis
  and no space, and \<^verbatim>\<open>11H(JEROME)\<close> becomes \<^verbatim>\<open>11H_JEROME\<close>.
\<close>

theorem sanitize_filename_rule:
  "sanitize_filename name = concat (map sanitize_char name)
   \<and> CHR ''('' \<notin> set (sanitize_filename name)
   \<and> CHR '')'' \<notin> set (sanitize_filename name)
   \<and> CHR '' '' \<notin> set (sanitize_filename name)
   \<and> sanitize_filename ''11H(JEROME)'' = ''11H_JEROME''"
proof -
  have ex: "sanitize_filename ''11H(JEROME)'' = ''11H_JEROME''"
    by (simp add: sanitize_filename_def)
  from sanitize_chars [of name] sanitize_concat [of name] ex show ?thesis by auto
qed

subsection \<open>Resolving an item to an image file\<close>

lemmas path_eval =
  pathlib_join_def path_join_def normalise_def components_def path_root_def path_name_def
  is_child_def

lemma probe_find:
  "probe dir d i exts =
     map_option (\<lambda>ext. pathlib_join d (i @ ext))
       (find (\<lambda>ext. path_exists dir (pathlib_join d (i @ ext))) exts)"
  by (induction exts) (auto simp: Let_def)

lemma path_exists_iff: "path_exists dir p = (p \<in> set (map fst dir))"
  by (simp add: path_exists_def map_of_eq_None_iff)

lemma probe_names:
  "set (map fst dir) = set (map fst dir') \<Longrightarrow> probe dir d i exts = probe dir' d i exts"
proof -
  assume "set (map fst dir) = set (map fst dir')"
  then have "path_exists dir = path_exists dir'"
    unfolding fun_eq_iff path_exists_iff by simp
  then show ?thesis by (induction exts) (simp_all add: Let_def)
qed

text \<open>
  C7: \<^const>\<open>find_image_file\<close> probes the ten extensions in their declared order (the five
  lowercase ones, then the five uppercase ones) and returns the path, as \<^verbatim>\<open>pathlib\<close> prints
  it, of the first one that exists, or nothing when none does. The result depends only on which paths exist: two
  listings of the directory with the same paths, in any order and with any file contents, give
  the same result, also when several files share the stem.
\<close>

theorem find_image_file_first_match:
  assumes "set (map fst dir) = set (map fst dir')"
  shows "find_image_file dir item_id images_dir =
           map_option (\<lambda>ext. pathlib_join images_dir (item_id @ ext))
             (find (\<lambda>ext. path_exists dir (pathlib_join images_dir (item_id @ ext)))
                [''.jpg'', ''.jpeg'', ''.png'', ''.tif'', ''.tiff'',
                 ''.JPG'', ''.JPEG'', ''.PNG'', ''.TIF'', ''.TIFF''])
         \<and> find_image_file dir' item_id images_dir = find_image_file dir item_id images_dir"
  using probe_names [OF assms, of images_dir item_id extensions]
  unfolding find_image_file_def probe_find by (simp add: extensions_def)

theorem find_image_file_first_match_witness:
  "set (map fst [(''/img/a.png'', Readable 1 1), (''/img/a.JPG'', Unreadable ''x''), (''/img/a.jpg'', Readable 2 2)])
     = set (map fst [(''/img/a.jpg'', Readable 3 3), (''/img/a.JPG'', Readable 4 4), (''/img/a.png'', Readable 5 5)])
   \<and> find_image_file [(''/img/a.png'', Readable 1 1), (''/img/a.JPG'', Unreadable ''x''), (''/img/a.jpg'', Readable 2 2)] ''a'' ''/img'' = Some ''/img/a.jpg''
   \<and> find_image_file [(''/img/a.jpg'', Readable 3 3), (''/img/a.JPG'', Readable 4 4), (''/img/a.png'', Readable 5 5)] ''a'' ''/img'' = Some ''/img/a.jpg''"
proof -
  have h: "set (map fst [(''/img/a.png'', Readable 1 1), (''/img/a.JPG'', Unreadable ''x''), (''/img/a.jpg'', Readable 2 2)])
     = set (map fst [(''/img/a.jpg'', Readable 3 3), (''/img/a.JPG'', Readable 4 4), (''/img/a.png'', Readable 5 5)])"
    by auto
  show ?thesis
    using h find_image_file_first_match [OF h, of "''a''" "''/img''"]
    by (simp add: path_exists_def path_eval)
qed

lemma find_image_file_dot_example:
  "find_image_file [(''/img/a.jpg'', Readable 1 1)] ''./a'' ''/img'' = Some ''/img/a.jpg''"
  by (simp add: find_image_file_def extensions_def path_exists_def path_eval)

lemma join_slash_nonempty: "cs \<noteq> [] \<Longrightarrow> [] \<notin> set cs \<Longrightarrow> join_slash cs \<noteq> []"
  by (induction cs rule: join_slash.induct) auto

lemma normalise_nonempty: "normalise p \<noteq> []"
proof (cases "components p = []")
  case True
  then show ?thesis by (simp add: normalise_def)
next
  case False
  moreover have "[] \<notin> set (components p)" by (simp add: components_def)
  ultimately have "join_slash (components p) \<noteq> []" by (rule join_slash_nonempty)
  with False show ?thesis by (simp add: normalise_def)
qed

lemma pathlib_join_nonempty: "pathlib_join a b \<noteq> []"
  by (simp add: pathlib_join_def normalise_nonempty)

lemma probe_nonempty: "probe dir d i exts = Some p \<Longrightarrow> p \<noteq> []"
  by (induction exts) (auto simp: Let_def pathlib_join_nonempty split: if_splits)

lemma find_image_file_nonempty: "find_image_file dir i d = Some p \<Longrightarrow> p \<noteq> []"
  unfolding find_image_file_def by (erule probe_nonempty)

subsection \<open>Reading the dimensions of an image\<close>

text \<open>
  C6: when opening or decoding the image fails, whatever the exception,
  \<^const>\<open>get_image_dimensions\<close> returns the fallback size 1000 by 1000 together with one warning
  line; it returns a value in every case, so the loop of the manifest builder goes on: the item
  still gets its canvas, of size 1000 by 1000, and is not counted as skipped.
\<close>

theorem get_image_dimensions_fallback:
  assumes "image_open_size dir image_path = Inl e"
  shows "get_image_dimensions dir image_path =
           ((1000, 1000), [''Warning: Could not read dimensions for '' @ image_path @ '': '' @ e])
         \<and> (find_image_file dir item_id images_dir = Some image_path \<longrightarrow>
              add_image dir images_dir base_url mid item_id st =
                st\<lparr>items := items st @
                     [create_canvas item_id (path_name image_path) base_url 1000 1000
                        (canvas_index st) mid],
                   canvas_index := canvas_index st + 1,
                   warnings := warnings st @
                     [''Warning: Could not read dimensions for '' @ image_path @ '': '' @ e]\<rparr>)"
  using assms
  by (auto simp: get_image_dimensions_def add_image_def Let_def dest: find_image_file_nonempty)

theorem get_image_dimensions_fallback_witness:
  "image_open_size [(''/img/a.jpg'', Unreadable ''cannot identify image file'')] ''/img/a.jpg''
     = Inl ''cannot identify image file''
   \<and> find_image_file [(''/img/a.jpg'', Unreadable ''cannot identify image file'')] ''a'' ''/img''
     = Some ''/img/a.jpg''
   \<and> get_image_dimensions [(''/img/a.jpg'', Unreadable ''cannot identify image file'')]
       ''/img/a.jpg''
     = ((1000, 1000),
        [''Warning: Could not read dimensions for /img/a.jpg: cannot identify image file''])
   \<and> map canvas_width
       (items (add_image [(''/img/a.jpg'', Unreadable ''cannot identify image file'')] ''/img''
          ''http://h'' ''m'' ''a'' initial_state)) = [1000]
   \<and> skipped (add_image [(''/img/a.jpg'', Unreadable ''cannot identify image file'')] ''/img''
          ''http://h'' ''m'' ''a'' initial_state) = 0"
proof -
  have h: "image_open_size [(''/img/a.jpg'', Unreadable ''cannot identify image file'')]
             ''/img/a.jpg'' = Inl ''cannot identify image file''"
    by (simp add: image_open_size_def)
  have f: "find_image_file [(''/img/a.jpg'', Unreadable ''cannot identify image file'')] ''a''
             ''/img'' = Some ''/img/a.jpg''"
    by (simp add: find_image_file_def extensions_def path_exists_def path_eval)
  show ?thesis
    using h f get_image_dimensions_fallback [OF h, of "''a''" "''/img''" "''http://h''" "''m''"
        initial_state]
    by (simp add: initial_state_def create_canvas_def)
qed

subsection \<open>Decimal numerals\<close>

lemma digit_char_inj: "d < 10 \<Longrightarrow> d' < 10 \<Longrightarrow> digit_char d = digit_char d' \<Longrightarrow> d = d'"
proof -
  assume a: "d < 10" "d' < 10" "digit_char d = digit_char d'"
  have "distinct ''0123456789''" by simp
  with a show ?thesis
    unfolding digit_char_def by (simp add: nth_eq_iff_index_eq del: distinct.simps)
qed

lemma digit_char_in: "d < 10 \<Longrightarrow> digit_char d \<in> set ''0123456789''"
  unfolding digit_char_def by (rule nth_mem) simp

lemma str_nat_nonempty: "str_nat n \<noteq> []"
  by (subst str_nat.simps) simp

lemma str_nat_digits: "set (str_nat n) \<subseteq> set ''0123456789''"
proof (induction n rule: str_nat.induct)
  case (1 n)
  show ?case
  proof (cases "n < 10")
    case True
    then show ?thesis using digit_char_in [of n] by (subst str_nat.simps) simp
  next
    case False
    have "n mod 10 < 10" by simp
    from digit_char_in [OF this] 1 [OF False] False show ?thesis
      by (subst str_nat.simps) simp
  qed
qed

lemma str_nat_inj: "str_nat m = str_nat n \<Longrightarrow> m = n"
proof (induction m arbitrary: n rule: str_nat.induct)
  case (1 m)
  show ?case
  proof (cases "m < 10")
    case m: True
    show ?thesis
    proof (cases "n < 10")
      case True
      with m 1(2) have "digit_char m = digit_char n"
        by (simp add: str_nat.simps [of m] str_nat.simps [of n])
      with m True show ?thesis by (rule_tac digit_char_inj)
    next
      case False
      with m 1(2) str_nat_nonempty [of "n div 10"] show ?thesis
        by (simp add: str_nat.simps [of m] str_nat.simps [of n])
    qed
  next
    case m: False
    show ?thesis
    proof (cases "n < 10")
      case True
      with m 1(2) str_nat_nonempty [of "m div 10"] show ?thesis
        by (simp add: str_nat.simps [of m] str_nat.simps [of n])
    next
      case False
      with m 1(2) have e: "str_nat (m div 10) = str_nat (n div 10)"
        and d: "digit_char (m mod 10) = digit_char (n mod 10)"
        by (simp_all add: str_nat.simps [of m] str_nat.simps [of n])
      from 1(1) [OF m e] have "m div 10 = n div 10" .
      moreover from d have "m mod 10 = n mod 10" by (intro digit_char_inj) simp_all
      ultimately have "m div 10 * 10 + m mod 10 = n div 10 * 10 + n mod 10" by simp
      then show ?thesis by simp
    qed
  qed
qed

lemma str_nat_no_char: "c \<notin> set ''0123456789'' \<Longrightarrow> c \<notin> set (str_nat n)"
  using str_nat_digits [of n] by blast

lemma str_nat_no_slash: "CHR ''/'' \<notin> set (str_nat n)"
  by (rule str_nat_no_char) simp

lemma str_nat_no_minus: "CHR ''-'' \<notin> set (str_nat n)"
  by (rule str_nat_no_char) simp

lemma str_int_no_slash: "CHR ''/'' \<notin> set (str_int k)"
  by (simp add: str_int_def str_nat_no_slash)

lemma str_int_inj: "str_int k = str_int k' \<Longrightarrow> k = k'"
proof -
  assume a: "str_int k = str_int k'"
  have nd: "\<And>n. hd (str_nat n) \<noteq> CHR ''-''"
  proof -
    fix n
    have "hd (str_nat n) \<in> set (str_nat n)" by (simp add: str_nat_nonempty)
    with str_nat_no_minus [of n] show "hd (str_nat n) \<noteq> CHR ''-''" by metis
  qed
  show ?thesis
  proof (cases "k < 0")
    case k: True
    show ?thesis
    proof (cases "k' < 0")
      case True
      with k a have "str_nat (nat (- k)) = str_nat (nat (- k'))" by (simp add: str_int_def)
      from str_nat_inj [OF this] k True show ?thesis by simp
    next
      case False
      with k a have "CHR ''-'' # str_nat (nat (- k)) = str_nat (nat k')" by (simp add: str_int_def)
      then have "hd (str_nat (nat k')) = hd (CHR ''-'' # str_nat (nat (- k)))" by simp
      then have "hd (str_nat (nat k')) = CHR ''-''" by simp
      with nd show ?thesis by blast
    qed
  next
    case k: False
    show ?thesis
    proof (cases "k' < 0")
      case True
      with k a have "str_nat (nat k) = CHR ''-'' # str_nat (nat (- k'))" by (simp add: str_int_def)
      then have "hd (str_nat (nat k)) = CHR ''-''" by simp
      with nd show ?thesis by blast
    next
      case False
      with k a have "str_nat (nat k) = str_nat (nat k')" by (simp add: str_int_def)
      from str_nat_inj [OF this] k False show ?thesis by simp
    qed
  qed
qed

lemma last_segment:
  assumes "CHR ''/'' \<notin> set s" "CHR ''/'' \<notin> set s'" "a @ CHR ''/'' # s = a' @ CHR ''/'' # s'"
  shows "a = a' \<and> s = s'"
proof -
  have tw: "\<And>t b. CHR ''/'' \<notin> set t \<Longrightarrow>
              takeWhile (\<lambda>c. c \<noteq> CHR ''/'') (rev (b @ CHR ''/'' # t)) = rev t"
  proof -
    fix t :: string and b :: string
    assume "CHR ''/'' \<notin> set t"
    then have "\<And>x. x \<in> set (rev t) \<Longrightarrow> x \<noteq> CHR ''/''" by auto
    from takeWhile_append2 [of "rev t" "\<lambda>c. c \<noteq> CHR ''/''" "CHR ''/'' # rev b", OF this]
    show "takeWhile (\<lambda>c. c \<noteq> CHR ''/'') (rev (b @ CHR ''/'' # t)) = rev t" by simp
  qed
  from tw [OF assms(1), of a] tw [OF assms(2), of a'] assms(3) have "rev s = rev s'"
    by simp
  then have s: "s = s'" by simp
  with assms(3) show ?thesis by simp
qed

subsection \<open>The identifiers of a canvas\<close>

lemma indexed_url_eq:
  "(base @ ''/collections/'' @ mid @ kind @ ''/'' @ str_int k
      = base @ ''/collections/'' @ mid' @ kind @ ''/'' @ str_int k')
   = (mid = mid' \<and> k = k')"
proof
  assume "base @ ''/collections/'' @ mid @ kind @ ''/'' @ str_int k
      = base @ ''/collections/'' @ mid' @ kind @ ''/'' @ str_int k'"
  then have "(mid @ kind) @ CHR ''/'' # str_int k = (mid' @ kind) @ CHR ''/'' # str_int k'"
    by simp
  from last_segment [OF str_int_no_slash str_int_no_slash this]
  show "mid = mid' \<and> k = k'" by (auto dest: str_int_inj)
qed auto

lemma nested_ids_create_canvas:
  "nested_ids (create_canvas item_id image_filename base_url width height k mid) =
     [base_url @ ''/collections/'' @ mid @ ''/canvas/'' @ str_int k,
      base_url @ ''/collections/'' @ mid @ ''/page/'' @ str_int k,
      base_url @ ''/collections/'' @ mid @ ''/annotation/'' @ str_int k,
      base_url @ ''/iiif/3/'' @ image_filename]"
  by (simp add: nested_ids_def create_canvas_def)

lemma canvas_url_eq:
  "(base @ ''/collections/'' @ mid @ ''/canvas/'' @ str_int k
      = base @ ''/collections/'' @ mid' @ ''/canvas/'' @ str_int k') = (mid = mid' \<and> k = k')"
  using indexed_url_eq [of base mid "''/canvas''" k mid' k'] by simp

lemma page_url_eq:
  "(base @ ''/collections/'' @ mid @ ''/page/'' @ str_int k
      = base @ ''/collections/'' @ mid' @ ''/page/'' @ str_int k') = (mid = mid' \<and> k = k')"
  using indexed_url_eq [of base mid "''/page''" k mid' k'] by simp

lemma annotation_url_eq:
  "(base @ ''/collections/'' @ mid @ ''/annotation/'' @ str_int k
      = base @ ''/collections/'' @ mid' @ ''/annotation/'' @ str_int k') = (mid = mid' \<and> k = k')"
  using indexed_url_eq [of base mid "''/annotation''" k mid' k'] by simp

text \<open>
  C2, amended: of the four identifiers nested in a canvas, three (the Canvas id, the
  AnnotationPage id and the Annotation id) share the prefix
  \<^verbatim>\<open>{base_url}/collections/{manifest_id}/\<close> and end with the canvas index, so that for a
  given base URL each of them determines the manifest id and the index. The fourth, the
  Image-service id, is \<^verbatim>\<open>{base_url}/iiif/3/{image_filename}\<close>: it names the image file and
  carries neither the manifest id nor the index.
\<close>

theorem create_canvas_ids:
  "nested_ids (create_canvas item_id image_filename base_url width height k mid) =
     [base_url @ ''/collections/'' @ mid @ ''/canvas/'' @ str_int k,
      base_url @ ''/collections/'' @ mid @ ''/page/'' @ str_int k,
      base_url @ ''/collections/'' @ mid @ ''/annotation/'' @ str_int k,
      base_url @ ''/iiif/3/'' @ image_filename]
   \<and> ((nested_ids (create_canvas item_id image_filename base_url width height k mid) ! 0
        = nested_ids (create_canvas item_id' image_filename' base_url width' height' k' mid') ! 0)
       = (mid = mid' \<and> k = k'))
   \<and> ((nested_ids (create_canvas item_id image_filename base_url width height k mid) ! 1
        = nested_ids (create_canvas item_id' image_filename' base_url width' height' k' mid') ! 1)
       = (mid = mid' \<and> k = k'))
   \<and> ((nested_ids (create_canvas item_id image_filename base_url width height k mid) ! 2
        = nested_ids (create_canvas item_id' image_filename' base_url width' height' k' mid') ! 2)
       = (mid = mid' \<and> k = k'))"
  unfolding nested_ids_create_canvas
  by (simp only: nth_Cons_0 nth_Cons_Suc One_nat_def numeral_2_eq_2
        canvas_url_eq page_url_eq annotation_url_eq simp_thms)

text \<open>
  C2, as stated, fails: the Image-service id of a canvas does not start with
  \<^verbatim>\<open>{base_url}/collections/{manifest_id}/\<close>.
\<close>

theorem service_id_prefix_counterexample:
  "\<not> list_all (prefix (''http://h'' @ ''/collections/'' @ ''m'' @ ''/''))
       (nested_ids (create_canvas ''a'' ''a.jpg'' ''http://h'' 10 20 1 ''m''))"
  unfolding nested_ids_create_canvas by simp

subsection \<open>The loop of the manifest builder\<close>

lemma add_image_skip:
  "\<not> resolves dir d i \<Longrightarrow> add_image dir d b m i st = st\<lparr>skipped := skipped st + 1\<rparr>"
  by (simp add: resolves_def add_image_def)

lemma add_image_canvas:
  "resolves dir d i \<Longrightarrow>
   add_image dir d b m i st =
     st\<lparr>items := items st @ [canvas_for dir d b m (canvas_index st) i],
        canvas_index := canvas_index st + 1,
        warnings := warnings st @ snd (get_image_dimensions dir (the (find_image_file dir i d)))\<rparr>"
  by (auto simp: resolves_def add_image_def canvas_for_def Let_def find_image_file_nonempty
      split: option.splits prod.splits)

lemma add_images_skipped:
  "skipped (add_images dir d b m ids st) =
     skipped st + int (length (filter (\<lambda>i. \<not> resolves dir d i) ids))"
  by (induction ids arbitrary: st) (auto simp: add_image_skip add_image_canvas)

lemma add_images_index:
  "canvas_index (add_images dir d b m ids st) =
     canvas_index st + int (length (filter (resolves dir d) ids))"
  by (induction ids arbitrary: st) (auto simp: add_image_skip add_image_canvas)

lemma add_images_items:
  "items (add_images dir d b m ids st) =
     items st @ map (\<lambda>(k, i). canvas_for dir d b m k i)
       (zip [canvas_index st .. canvas_index st + int (length (filter (resolves dir d) ids)) - 1]
            (filter (resolves dir d) ids))"
proof (induction ids arbitrary: st)
  case Nil
  then show ?case by simp
next
  case (Cons i ids)
  show ?case
  proof (cases "resolves dir d i")
    case True
    let ?n = "int (length (filter (resolves dir d) ids))"
    have up: "[canvas_index st .. canvas_index st + (1 + ?n) - 1]
                = canvas_index st # [canvas_index st + 1 .. canvas_index st + 1 + ?n - 1]"
      by (subst upto_rec1) (auto simp: algebra_simps)
    from True show ?thesis
      using up by (simp add: Cons.IH add_image_canvas)
  next
    case False
    then show ?thesis by (simp add: Cons.IH add_image_skip)
  qed
qed

lemma index_ids_canvas_for: "index_ids (canvas_for dir d b m k i) = ids_at b m k"
  by (simp add: index_ids_def canvas_for_def create_canvas_def ids_at_def Let_def)

lemma canvas_label_canvas_for:
  "canvas_label (canvas_for dir d b m k i) = [(''en'', [i])]"
  by (simp add: canvas_for_def create_canvas_def Let_def)

lemma map_zip_fst: "length ks = length xs \<Longrightarrow> map (\<lambda>(k, i). f k) (zip ks xs) = map f ks"
  by (induction ks xs rule: list_induct2) simp_all

lemma map_zip_snd:
  "length ks = length xs \<Longrightarrow> (\<And>k i. i \<in> set xs \<Longrightarrow> g k i = h i)
     \<Longrightarrow> map (\<lambda>(k, i). g k i) (zip ks xs) = map h xs"
  by (induction ks xs rule: list_induct2) simp_all

lemma built_items:
  "items (add_images dir d b m ids initial_state) =
     map (\<lambda>(k, i). canvas_for dir d b m k i)
       (zip [1 .. int (length (filter (resolves dir d) ids))] (filter (resolves dir d) ids))"
  using add_images_items [of dir d b m ids initial_state] by (simp add: initial_state_def)

lemma built_index_ids:
  "map index_ids (items (add_images dir d b m ids initial_state)) =
     map (ids_at b m) [1 .. int (length (filter (resolves dir d) ids))]"
  unfolding built_items map_map comp_def
  using map_zip_fst [of "[1 .. int (length (filter (resolves dir d) ids))]"
      "filter (resolves dir d) ids" "ids_at b m"]
  by (simp add: index_ids_canvas_for case_prod_unfold)

lemma built_labels:
  "map canvas_label (items (add_images dir d b m ids initial_state)) =
     map (\<lambda>i. [(''en'', [i])]) (filter (resolves dir d) ids)"
  unfolding built_items map_map comp_def
  using map_zip_snd [of "[1 .. int (length (filter (resolves dir d) ids))]"
      "filter (resolves dir d) ids" "\<lambda>k i. canvas_label (canvas_for dir d b m k i)"
      "\<lambda>i. [(''en'', [i])]"]
  by (simp add: canvas_label_canvas_for case_prod_unfold)

lemma built_skipped:
  "skipped (add_images dir d b m ids initial_state) =
     int (length (filter (\<lambda>i. \<not> resolves dir d i) ids))"
  by (simp add: add_images_skipped initial_state_def)

lemma resolved_count:
  "int (length (filter (resolves dir d) ids)) =
     int (length ids) - int (length (filter (\<lambda>i. \<not> resolves dir d i) ids))"
  using sum_length_filter_compl [of "resolves dir d" ids] by simp

text \<open>
  C3: in the manifest built over a list of item ids, an item whose image file is not found
  adds one to the skip counter and adds no canvas; the canvases of the found items appear in
  the order of the list, and their Canvas, AnnotationPage and Annotation ids carry the indices
  1, 2, ..., k without a gap, where k is the number of requested items minus the number of
  skipped ones.
\<close>

theorem canvas_indices_contiguous:
  "(let r = create_multi_image_manifest mid label description image_ids images_dir base_url
              output_path dir out
    in skipped_count r = int (length (filter (\<lambda>i. \<not> resolves dir images_dir i) image_ids))
       \<and> int (length (manifest_items (returned r))) = int (length image_ids) - skipped_count r
       \<and> map index_ids (manifest_items (returned r)) =
           map (ids_at base_url mid) [1 .. int (length image_ids) - skipped_count r]
       \<and> map canvas_label (manifest_items (returned r)) =
           map (\<lambda>i. [(''en'', [i])]) (filter (resolves dir images_dir) image_ids))"
proof -
  let ?st = "add_images dir images_dir base_url mid image_ids initial_state"
  have len: "int (length (items ?st)) = int (length (filter (resolves dir images_dir) image_ids))"
    using arg_cong [OF built_labels [of dir images_dir base_url mid image_ids], of length]
    by simp
  show ?thesis
    unfolding create_multi_image_manifest_def Let_def
    by (simp add: built_skipped built_index_ids built_labels len resolved_count)
qed

text \<open>
  C10: when no item of the list resolves to an image file, the builder still writes the
  manifest, complete with its context, id, type, label and summary and with an empty items
  array, to the output path, and the skip counter equals the length of the list.
\<close>

theorem unresolved_manifest_written:
  assumes "\<forall>i \<in> set image_ids. find_image_file dir i images_dir = None"
  shows "(let r = create_multi_image_manifest mid label description image_ids images_dir
                    base_url output_path dir out
          in returned r =
               \<lparr>manifest_context = ''http://iiif.io/api/presentation/3/context.json'',
                manifest_id = base_url @ ''/collections/'' @ mid @ ''.json'',
                manifest_type = ''Manifest'',
                manifest_label = [(''en'', [label])],
                manifest_summary = [(''en'', [description])],
                manifest_items = []\<rparr>
             \<and> map_of (written r) output_path = Some (returned r)
             \<and> skipped_count r = int (length image_ids))"
proof -
  from assms have none: "filter (resolves dir images_dir) image_ids = []"
    by (simp add: resolves_def filter_empty_conv)
  from assms have "filter (\<lambda>i. \<not> resolves dir images_dir i) image_ids = image_ids"
    by (simp add: resolves_def filter_id_conv)
  with none show ?thesis
    unfolding create_multi_image_manifest_def Let_def
    by (simp add: built_skipped built_items update_Some_unfold)
qed

theorem unresolved_manifest_written_witness:
  "find_image_file [(''/img/c.jpg'', Readable 3 4)] ''a'' ''/img'' = None
   \<and> find_image_file [(''/img/c.jpg'', Readable 3 4)] ''b'' ''/img'' = None
   \<and> manifest_items (returned (create_multi_image_manifest ''m'' ''L'' ''D'' [''a'', ''b''] ''/img''
        ''http://h'' ''/out/m.json'' [(''/img/c.jpg'', Readable 3 4)] [])) = []
   \<and> map fst (written (create_multi_image_manifest ''m'' ''L'' ''D'' [''a'', ''b''] ''/img''
        ''http://h'' ''/out/m.json'' [(''/img/c.jpg'', Readable 3 4)] [])) = [''/out/m.json'']
   \<and> skipped_count (create_multi_image_manifest ''m'' ''L'' ''D'' [''a'', ''b''] ''/img''
        ''http://h'' ''/out/m.json'' [(''/img/c.jpg'', Readable 3 4)] []) = 2"
proof -
  have h: "\<forall>i \<in> set [''a'', ''b'']. find_image_file [(''/img/c.jpg'', Readable 3 4)] i ''/img'' = None"
    by (simp add: find_image_file_def extensions_def path_exists_def path_eval)
  have w: "map fst (written (create_multi_image_manifest ''m'' ''L'' ''D'' [''a'', ''b''] ''/img''
        ''http://h'' ''/out/m.json'' [(''/img/c.jpg'', Readable 3 4)] [])) = [''/out/m.json'']"
    by (simp add: create_multi_image_manifest_def Let_def)
  show ?thesis
    using h w unresolved_manifest_written [OF h, of "''m''" "''L''" "''D''" "''http://h''"
        "''/out/m.json''" "[]"]
    by (simp add: Let_def)
qed

subsection \<open>The catalog loader\<close>

lemma append_to_map:
  "distinct (map fst data) \<Longrightarrow>
   append_to key i data = map (\<lambda>(k, v). (k, if k = key then v @ [i] else v)) data"
proof (induction data)
  case Nil
  then show ?case by (simp add: append_to_def)
next
  case (Cons p data)
  obtain a b where p: "p = (a, b)" by (cases p)
  from Cons.prems p have notin: "a \<notin> fst ` set data" and d: "distinct (map fst data)" by auto
  from Cons.IH [OF d] have ih: "AList.map_entry key (\<lambda>ids. ids @ [i]) data
      = map (\<lambda>(k, v). (k, if k = key then v @ [i] else v)) data"
    by (simp add: append_to_def)
  show ?case
  proof (cases "a = key")
    case True
    with notin have "map (\<lambda>(k, v). (k, if k = key then v @ [i] else v)) data = data"
      by (intro map_idI) (auto simp: image_iff)
    with True p show ?thesis by (simp add: append_to_def)
  next
    case False
    with p ih show ?thesis by (simp add: append_to_def)
  qed
qed

lemma fst_map_snd: "map fst (map (\<lambda>(k, v). (k, f k v)) data) = map fst data"
  by (induction data) auto

lemma fold_saints_map:
  "distinct cats \<Longrightarrow> distinct (map fst data) \<Longrightarrow>
   fold (\<lambda>saint data. if r saint = Some ''1'' then append_to saint i data else data) cats data
     = map (\<lambda>(k, v). (k, if k \<in> set cats \<and> r k = Some ''1'' then v @ [i] else v)) data"
proof (induction cats arbitrary: data)
  case Nil
  then show ?case by (simp add: case_prod_unfold)
next
  case (Cons c cats)
  let ?step = "if r c = Some ''1'' then append_to c i data else data"
  have step: "?step = map (\<lambda>(k, v). (k, if k = c \<and> r c = Some ''1'' then v @ [i] else v)) data"
    using append_to_map [OF Cons.prems(2), of c i] by (auto simp: case_prod_unfold)
  have dist: "distinct (map fst ?step)"
    unfolding step using Cons.prems(2) by (simp add: case_prod_unfold comp_def)
  from Cons.prems(1) have dc: "distinct cats" and nc: "c \<notin> set cats" by auto
  have "fold (\<lambda>saint data. if r saint = Some ''1'' then append_to saint i data else data)
          (c # cats) data
        = fold (\<lambda>saint data. if r saint = Some ''1'' then append_to saint i data else data)
            cats ?step"
    by simp
  also have "\<dots> = map (\<lambda>(k, v). (k, if k \<in> set cats \<and> r k = Some ''1'' then v @ [i] else v)) ?step"
    by (rule Cons.IH [OF dc dist])
  also have "\<dots> = map (\<lambda>(k, v). (k, if k \<in> set (c # cats) \<and> r k = Some ''1'' then v @ [i] else v)) data"
    unfolding step using nc by (auto simp: case_prod_unfold)
  finally show ?case .
qed

lemma distinct_SAINT_CATEGORIES: "distinct SAINT_CATEGORIES"
  by (simp add: SAINT_CATEGORIES_def)

lemma set_step:
  "distinct (map fst sd) \<Longrightarrow>
   (if s \<in> set (map fst sd) then append_to s i sd else sd)
     = map (\<lambda>(k, v). (k, if k = s then v @ [i] else v)) sd"
proof (cases "s \<in> set (map fst sd)")
  case True
  assume "distinct (map fst sd)"
  with True show ?thesis by (simp add: append_to_map)
next
  case False
  then have "map (\<lambda>(k, v). (k, if k = s then v @ [i] else v)) sd = sd"
    by (intro map_idI) (auto simp: image_iff)
  with False show ?thesis by simp
qed

lemma add_saints_map:
  "distinct (map fst cd) \<Longrightarrow>
   add_saints r i cd
     = map (\<lambda>(k, v). (k, if k \<in> set SAINT_CATEGORIES \<and> r k = Some ''1'' then v @ [i] else v)) cd"
  unfolding add_saints_def by (rule fold_saints_map [OF distinct_SAINT_CATEGORIES])

lemma split_bucket_Cons:
  "split_bucket (r # rs) k = (if r ''set'' = Some k then [item_of r] else []) @ split_bucket rs k"
  by (simp add: split_bucket_def)

lemma category_bucket_Cons:
  "category_bucket (r # rs) k = (if r k = Some ''1'' then [item_of r] else []) @ category_bucket rs k"
  by (simp add: category_bucket_def)

lemma load_rows_ok:
  "list_all has_columns rows \<Longrightarrow> distinct (map fst sd) \<Longrightarrow> distinct (map fst cd) \<Longrightarrow>
   load_rows rows (sd, cd, all_items) =
     Inr (map (\<lambda>(k, v). (k, v @ split_bucket rows k)) sd,
          map (\<lambda>(k, v). (k, v @ (if k \<in> set SAINT_CATEGORIES then category_bucket rows k else []))) cd,
          all_items @ map item_of rows)"
proof (induction rows arbitrary: sd cd all_items)
  case Nil
  then show ?case
    by (simp add: split_bucket_def category_bucket_def case_prod_unfold cong: if_cong)
next
  case (Cons r rs)
  from Cons.prems(1) have hr: "has_columns r" and rs: "list_all has_columns rs" by simp_all
  from hr obtain i s where i: "r ''item'' = Some i" and s: "r ''set'' = Some s"
    unfolding has_columns_def by blast
  let ?sd = "map (\<lambda>(k, v). (k, if k = s then v @ [i] else v)) sd"
  let ?cd = "map (\<lambda>(k, v). (k, if k \<in> set SAINT_CATEGORIES \<and> r k = Some ''1'' then v @ [i] else v)) cd"
  have dsd: "distinct (map fst ?sd)" using Cons.prems(2) by (simp add: case_prod_unfold comp_def)
  have dcd: "distinct (map fst ?cd)" using Cons.prems(3) by (simp add: case_prod_unfold comp_def)
  have io: "item_of r = i" using i by (simp add: item_of_def)
  have "load_rows (r # rs) (sd, cd, all_items) = load_rows rs (?sd, ?cd, all_items @ [i])"
    using i s set_step [OF Cons.prems(2), of s i] add_saints_map [OF Cons.prems(3), of r i]
    by simp
  also have "\<dots> = Inr (map (\<lambda>(k, v). (k, v @ split_bucket rs k)) ?sd,
          map (\<lambda>(k, v). (k, v @ (if k \<in> set SAINT_CATEGORIES then category_bucket rs k else []))) ?cd,
          (all_items @ [i]) @ map item_of rs)"
    by (rule Cons.IH [OF rs dsd dcd])
  also have "\<dots> = Inr (map (\<lambda>(k, v). (k, v @ split_bucket (r # rs) k)) sd,
          map (\<lambda>(k, v). (k, v @ (if k \<in> set SAINT_CATEGORIES then category_bucket (r # rs) k else []))) cd,
          all_items @ map item_of (r # rs))"
    using s io by (auto simp: split_bucket_Cons category_bucket_Cons case_prod_unfold)
  finally show ?case .
qed

lemma load_rows_error:
  "find (\<lambda>r. \<not> has_columns r) rows = Some r \<Longrightarrow>
   load_rows rows acc = Inl (KeyError (missing_column r))"
proof (induction rows arbitrary: acc)
  case Nil
  then show ?case by simp
next
  case (Cons a rs)
  obtain sd cd al where acc: "acc = (sd, cd, al)" by (cases acc)
  show ?case
  proof (cases "has_columns a")
    case True
    with Cons.prems have "find (\<lambda>r. \<not> has_columns r) rs = Some r" by simp
    from Cons.IH [OF this] True acc show ?thesis
      by (auto simp: has_columns_def)
  next
    case False
    with Cons.prems have "r = a" by simp
    with False acc show ?thesis
      by (auto simp: has_columns_def missing_column_def split: option.splits)
  qed
qed

lemma find_None_list_all: "find (\<lambda>r. \<not> P r) rows = None \<Longrightarrow> list_all P rows"
  by (induction rows) (auto split: if_splits)

lemma load_csv_data_closed:
  "load_csv_data rows =
     (case find (\<lambda>r. \<not> has_columns r) rows of
        None \<Rightarrow>
          Inr ([(''train'', split_bucket rows ''train''), (''test'', split_bucket rows ''test''),
                (''val'', split_bucket rows ''val'')],
               map (\<lambda>c. (c, category_bucket rows c)) SAINT_CATEGORIES,
               map item_of rows)
      | Some r \<Rightarrow> Inl (KeyError (missing_column r)))"
proof (cases "find (\<lambda>r. \<not> has_columns r) rows")
  case None
  have d: "distinct (map fst (map (\<lambda>saint. (saint, [])) SAINT_CATEGORIES :: buckets))"
    using distinct_SAINT_CATEGORIES by (simp add: comp_def)
  have d3: "distinct (map fst [(''train'', []), (''test'', []), (''val'', [] :: string list)])"
    by simp
  show ?thesis
    unfolding load_csv_data_def load_rows_ok [OF find_None_list_all [OF None] d3 d]
    using None by (simp add: comp_def)
next
  case (Some r)
  then show ?thesis
    unfolding load_csv_data_def by (simp add: load_rows_error)
qed

lemma split_bucket_lengths:
  "length (split_bucket rows ''train'') + length (split_bucket rows ''test'')
     + length (split_bucket rows ''val'') = length (filter known_split rows)"
  by (induction rows) (auto simp: split_bucket_def known_split_def)

text \<open>
  C4, as stated, fails: the \<^verbatim>\<open>set\<close> column is not optional. On a catalog whose header has no
  such column, \<^verbatim>\<open>row['set']\<close> raises \<^verbatim>\<open>KeyError\<close> at the first row.
\<close>

theorem load_csv_data_missing_set_counterexample:
  "load_csv_data [[''item'' \<mapsto> ''a'']] = Inl (KeyError ''set'')"
  by (simp add: load_csv_data_def)

text \<open>
  C4, amended: the loader needs both the \<^verbatim>\<open>item\<close> and the \<^verbatim>\<open>set\<close> column; the first row
  lacking one of them raises \<^verbatim>\<open>KeyError\<close>. On every other catalog it returns, and the full list
  holds the item id of every row, in order, whatever the row's split and category cells are, so
  its length is the number of rows. A row whose \<^verbatim>\<open>set\<close> cell is not one of the three split names
  (the empty cell included) raises nothing and goes into no split bucket: each split bucket holds
  the rows whose cell is its name, and the three buckets together have as many entries as there
  are rows with a known split name.
\<close>

theorem load_csv_data_full_list:
  "load_csv_data rows =
     (case find (\<lambda>r. \<not> has_columns r) rows of
        None \<Rightarrow>
          Inr ([(''train'', split_bucket rows ''train''), (''test'', split_bucket rows ''test''),
                (''val'', split_bucket rows ''val'')],
               map (\<lambda>c. (c, category_bucket rows c)) SAINT_CATEGORIES,
               map item_of rows)
      | Some r \<Rightarrow> Inl (KeyError (missing_column r)))
   \<and> length (map item_of rows) = length rows
   \<and> length (split_bucket rows ''train'') + length (split_bucket rows ''test'')
       + length (split_bucket rows ''val'') = length (filter known_split rows)"
  using load_csv_data_closed [of rows] split_bucket_lengths [of rows] by simp

lemma split_bucket_disjoint:
  assumes "distinct (map item_of rows)" "s \<noteq> t"
  shows "set (split_bucket rows s) \<inter> set (split_bucket rows t) = {}"
proof -
  from assms(1) have inj: "inj_on item_of (set rows)" by (simp add: distinct_map)
  show ?thesis
  proof (rule ccontr)
    assume "set (split_bucket rows s) \<inter> set (split_bucket rows t) \<noteq> {}"
    then obtain x where "x \<in> set (split_bucket rows s)" "x \<in> set (split_bucket rows t)" by blast
    then obtain r1 r2 where r1: "r1 \<in> set rows" "r1 ''set'' = Some s" "item_of r1 = x"
      and r2: "r2 \<in> set rows" "r2 ''set'' = Some t" "item_of r2 = x"
      by (auto simp: split_bucket_def)
    from inj r1(1,3) r2(1,3) have "r1 = r2" by (auto dest: inj_onD)
    with r1(2) r2(2) assms(2) show False by simp
  qed
qed

lemma split_bucket_distinct: "distinct (map item_of rows) \<Longrightarrow> distinct (split_bucket rows s)"
  unfolding split_bucket_def by (rule distinct_map_filter)

text \<open>
  C5, as stated, fails: the loader does not look at whether an item id has been seen before.
  When two rows carry the same item id with different split names, the id is in two split
  buckets.
\<close>

theorem split_duplicate_item_counterexample:
  "load_csv_data [[''item'' \<mapsto> ''a'', ''set'' \<mapsto> ''train''], [''item'' \<mapsto> ''a'', ''set'' \<mapsto> ''test'']]
     = Inr ([(''train'', [''a'']), (''test'', [''a'']), (''val'', [])],
            zip SAINT_CATEGORIES (replicate (length SAINT_CATEGORIES) []),
            [''a'', ''a''])"
  unfolding load_csv_data_closed
  by (simp add: has_columns_def split_bucket_def category_bucket_def item_of_def
      SAINT_CATEGORIES_def)

text \<open>
  C5, amended: on every catalog that loads, each split bucket holds the item ids of exactly
  the rows whose \<^verbatim>\<open>set\<close> cell is its name, in catalog order, so each row puts its item id into
  at most one split bucket and the three buckets together have one entry for each row whose
  cell is a known split name; membership is decided by that cell alone. An item id is in at
  most one split bucket when the item ids of the catalog are pairwise distinct. A category
  bucket holds the ids of the rows whose cell for that category is \<^verbatim>\<open>1\<close>, so an item may be
  in no, one or several category buckets.
\<close>

theorem split_buckets_disjoint:
  assumes "load_csv_data rows = Inr (set_data, saint_data, all_items)"
  shows "set_data = [(''train'', split_bucket rows ''train''), (''test'', split_bucket rows ''test''),
                     (''val'', split_bucket rows ''val'')]
         \<and> saint_data = map (\<lambda>c. (c, category_bucket rows c)) SAINT_CATEGORIES
         \<and> length (concat (map snd set_data)) = length (filter known_split rows)
         \<and> (distinct all_items \<longrightarrow> distinct (concat (map snd set_data)))"
proof -
  from assms have sd: "set_data = [(''train'', split_bucket rows ''train''),
        (''test'', split_bucket rows ''test''), (''val'', split_bucket rows ''val'')]"
    and cd: "saint_data = map (\<lambda>c. (c, category_bucket rows c)) SAINT_CATEGORIES"
    and al: "all_items = map item_of rows"
    unfolding load_csv_data_closed by (auto split: option.splits)
  have len: "length (concat (map snd set_data)) = length (filter known_split rows)"
    unfolding sd using split_bucket_lengths [of rows] by simp
  have "distinct (concat (map snd set_data))" if "distinct all_items"
  proof -
    from that al have d: "distinct (map item_of rows)" by simp
    show ?thesis
      unfolding sd
      using split_bucket_distinct [OF d] split_bucket_disjoint [OF d, of "''train''" "''test''"]
        split_bucket_disjoint [OF d, of "''train''" "''val''"]
        split_bucket_disjoint [OF d, of "''test''" "''val''"]
      by auto
  qed
  with sd cd len show ?thesis by blast
qed

theorem split_buckets_disjoint_witness:
  "load_csv_data
     [[''item'' \<mapsto> ''a'', ''set'' \<mapsto> ''train'', ''11F(MARY)'' \<mapsto> ''1'', ''11H(JEROME)'' \<mapsto> ''1''],
      [''item'' \<mapsto> ''b'', ''set'' \<mapsto> ''dev'', ''11F(MARY)'' \<mapsto> ''0''],
      [''item'' \<mapsto> ''c'', ''set'' \<mapsto> ''val'', ''11H(JEROME)'' \<mapsto> ''1'']]
     = Inr ([(''train'', [''a'']), (''test'', []), (''val'', [''c''])],
            map (\<lambda>c. (c, if c = ''11F(MARY)'' then [''a'']
                           else if c = ''11H(JEROME)'' then [''a'', ''c''] else []))
              SAINT_CATEGORIES,
            [''a'', ''b'', ''c''])
   \<and> distinct [''a'', ''b'', ''c'']
   \<and> distinct (concat (map snd [(''train'', [''a'']), (''test'', []), (''val'', [''c''])]))
   \<and> load_csv_data [[''item'' \<mapsto> ''a'', ''set'' \<mapsto> ''train''], [''item'' \<mapsto> ''a'', ''set'' \<mapsto> ''test'']]
     = Inr ([(''train'', [''a'']), (''test'', [''a'']), (''val'', [])],
            zip SAINT_CATEGORIES (replicate (length SAINT_CATEGORIES) []),
            [''a'', ''a''])
   \<and> length (concat (map snd [(''train'', [''a'']), (''test'', [''a'']), (''val'', [])]))
     = length (filter known_split
         [[''item'' \<mapsto> ''a'', ''set'' \<mapsto> ''train''], [''item'' \<mapsto> ''a'', ''set'' \<mapsto> ''test'']])"
proof -
  have h: "load_csv_data
     [[''item'' \<mapsto> ''a'', ''set'' \<mapsto> ''train'', ''11F(MARY)'' \<mapsto> ''1'', ''11H(JEROME)'' \<mapsto> ''1''],
      [''item'' \<mapsto> ''b'', ''set'' \<mapsto> ''dev'', ''11F(MARY)'' \<mapsto> ''0''],
      [''item'' \<mapsto> ''c'', ''set'' \<mapsto> ''val'', ''11H(JEROME)'' \<mapsto> ''1'']]
     = Inr ([(''train'', [''a'']), (''test'', []), (''val'', [''c''])],
            map (\<lambda>c. (c, if c = ''11F(MARY)'' then [''a'']
                           else if c = ''11H(JEROME)'' then [''a'', ''c''] else []))
              SAINT_CATEGORIES,
            [''a'', ''b'', ''c''])"
    unfolding load_csv_data_closed
    by (simp add: has_columns_def split_bucket_def category_bucket_def item_of_def
        SAINT_CATEGORIES_def)
  have k: "load_csv_data [[''item'' \<mapsto> ''a'', ''set'' \<mapsto> ''train''], [''item'' \<mapsto> ''a'', ''set'' \<mapsto> ''test'']]
     = Inr ([(''train'', [''a'']), (''test'', [''a'']), (''val'', [])],
            zip SAINT_CATEGORIES (replicate (length SAINT_CATEGORIES) []),
            [''a'', ''a''])"
    unfolding load_csv_data_closed
    by (simp add: has_columns_def split_bucket_def category_bucket_def item_of_def
        SAINT_CATEGORIES_def)
  have d: "distinct [''a'', ''b'', ''c'']" by simp
  from split_buckets_disjoint [OF h] d
  have d': "distinct (concat (map snd [(''train'', [''a'']), (''test'', []), (''val'', [''c''])]))"
    by blast
  from split_buckets_disjoint [OF k]
  have l: "length (concat (map snd [(''train'', [''a'']), (''test'', [''a'']), (''val'', [])]))
     = length (filter known_split
         [[''item'' \<mapsto> ''a'', ''set'' \<mapsto> ''train''], [''item'' \<mapsto> ''a'', ''set'' \<mapsto> ''test'']])"
    by blast
  from h d d' k l show ?thesis by (intro conjI)
qed

subsection \<open>The generation driver\<close>

lemma written_built:
  "written (create_multi_image_manifest mid label description image_ids (opt_images_dir opts)
              (opt_base_url opts) p dir out)
     = AList.update p (built opts dir mid label description image_ids) out"
  by (simp add: create_multi_image_manifest_def built_def Let_def)

lemma split_loop_fold:
  "list_all (\<lambda>b. map_of set_descriptions (fst b) \<noteq> None) sd \<Longrightarrow>
   split_loop opts dir sd (out, n) =
     (None, write_all (map (split_target opts dir) (filter (\<lambda>b. snd b \<noteq> []) sd)) out,
      n + length (filter (\<lambda>b. snd b \<noteq> []) sd))"
proof (induction sd arbitrary: out n)
  case Nil
  then show ?case by (simp add: write_all_def)
next
  case (Cons b sd)
  obtain s ids where b: "b = (s, ids)" by (cases b)
  from Cons.prems b obtain d where d: "map_of set_descriptions s = Some d"
    and rest: "list_all (\<lambda>b. map_of set_descriptions (fst b) \<noteq> None) sd"
    by auto
  show ?case
  proof (cases "ids = []")
    case True
    with b Cons.IH [OF rest] show ?thesis by simp
  next
    case False
    with b d Cons.IH [OF rest] show ?thesis
      by (simp add: written_built split_target_def write_all_def)
  qed
qed

lemma saint_loop_fold:
  "list_all (\<lambda>c. map_of saint_data c = Some (category_bucket rows c)) cats \<Longrightarrow>
   saint_loop opts dir saint_data cats (out, n) =
     (None,
      write_all (map (saint_target opts dir rows)
                   (filter (\<lambda>c. category_bucket rows c \<noteq> []) cats)) out,
      n + length (filter (\<lambda>c. category_bucket rows c \<noteq> []) cats))"
proof (induction cats arbitrary: out n)
  case Nil
  then show ?case by (simp add: write_all_def)
next
  case (Cons c cats)
  from Cons.prems have c: "map_of saint_data c = Some (category_bucket rows c)"
    and rest: "list_all (\<lambda>c. map_of saint_data c = Some (category_bucket rows c)) cats"
    by auto
  show ?case
  proof (cases "category_bucket rows c = []")
    case True
    with c Cons.IH [OF rest] show ?thesis by simp
  next
    case False
    with c Cons.IH [OF rest] show ?thesis
      by (simp add: written_built saint_target_def write_all_def)
  qed
qed

lemma map_of_saint_data:
  "list_all (\<lambda>c. map_of (map (\<lambda>c. (c, category_bucket rows c)) SAINT_CATEGORIES) c
                   = Some (category_bucket rows c)) SAINT_CATEGORIES"
proof -
  have "\<And>cats c. c \<in> set cats \<Longrightarrow>
          map_of (map (\<lambda>c. (c, category_bucket rows c)) cats) c = Some (category_bucket rows c)"
  proof -
    fix cats :: "string list" and c
    show "c \<in> set cats \<Longrightarrow>
          map_of (map (\<lambda>c. (c, category_bucket rows c)) cats) c = Some (category_bucket rows c)"
      by (induction cats) auto
  qed
  then show ?thesis by (simp add: list_all_iff)
qed

lemma split_slash_nonempty: "split_slash p \<noteq> []"
  by (induction p) (auto split: list.splits)

lemma split_slash_append: "split_slash (a @ CHR ''/'' # b) = split_slash a @ split_slash b"
proof (induction a)
  case Nil
  then show ?case by simp
next
  case (Cons c a)
  obtain x xs where x: "split_slash a = x # xs"
    using split_slash_nonempty [of a] by (cases "split_slash a") auto
  with Cons show ?case by simp
qed

lemma split_slash_simple: "CHR ''/'' \<notin> set n \<Longrightarrow> split_slash n = [n]"
  by (induction n) auto

lemma components_path_join:
  assumes "n \<noteq> []" "n \<noteq> ''.''" "CHR ''/'' \<notin> set n"
  shows "components (path_join a n) = components a @ [n]"
proof -
  from assms(1,3) have hd: "hd n \<noteq> CHR ''/''" by (cases n) auto
  have simple: "components n = [n]"
    using assms by (simp add: components_def split_slash_simple)
  show ?thesis
  proof (cases "a = []")
    case True
    with hd assms(1) simple show ?thesis by (simp add: path_join_def components_def)
  next
    case False
    show ?thesis
    proof (cases "last a = CHR ''/''")
      case True
      with False obtain a' where a: "a = a' @ ''/''" by (cases a rule: rev_cases) auto
      have "components (a' @ CHR ''/'' # n) = components a' @ [n]"
        using simple by (simp add: components_def split_slash_append)
      moreover have "components (a' @ ''/'') = components a'"
        using split_slash_append [of a' "[]"] by (simp add: components_def)
      ultimately show ?thesis using a hd assms(1) by (simp add: path_join_def)
    next
      case l: False
      have "components (a @ CHR ''/'' # n) = components a @ [n]"
        using simple by (simp add: components_def split_slash_append)
      with False l hd assms(1) show ?thesis by (simp add: path_join_def)
    qed
  qed
qed

lemma path_root_join:
  assumes "n \<noteq> []" "hd n \<noteq> CHR ''/''"
  shows "path_root (path_join a n) = path_root a"
proof -
  obtain c n' where n: "n = c # n'" "c \<noteq> CHR ''/''" using assms by (cases n) auto
  show ?thesis
  proof (cases a)
    case Nil
    with n show ?thesis by (simp add: path_join_def path_root_def)
  next
    case a1: (Cons c1 r1)
    show ?thesis
    proof (cases r1)
      case Nil
      with a1 n show ?thesis by (simp add: path_join_def path_root_def)
    next
      case a2: (Cons c2 r2)
      show ?thesis
      proof (cases r2)
        case Nil
        with a1 a2 n show ?thesis by (simp add: path_join_def path_root_def)
      next
        case (Cons c3 r3)
        with a1 a2 n show ?thesis by (simp add: path_join_def path_root_def)
      qed
    qed
  qed
qed

lemma path_name_join:
  "n \<noteq> [] \<Longrightarrow> n \<noteq> ''.'' \<Longrightarrow> CHR ''/'' \<notin> set n \<Longrightarrow> path_name (path_join a n) = n"
  by (simp add: path_name_def components_path_join)

lemma is_child_join:
  assumes "n \<noteq> []" "n \<noteq> ''.''" "CHR ''/'' \<notin> set n"
  shows "is_child a (path_join a n)"
proof -
  from assms(1,3) have "hd n \<noteq> CHR ''/''" by (cases n) auto
  from path_root_join [OF assms(1) this] components_path_join [OF assms]
  show ?thesis by (simp add: is_child_def)
qed

lemma path_join_eq:
  "b \<noteq> [] \<Longrightarrow> hd b \<noteq> CHR ''/'' \<Longrightarrow> b' \<noteq> [] \<Longrightarrow> hd b' \<noteq> CHR ''/'' \<Longrightarrow>
   (path_join a b = path_join a b') = (b = b')"
  by (auto simp: path_join_def)

lemma write_all_other:
  "p \<notin> fst ` set ts \<Longrightarrow> map_of (write_all ts out) p = map_of out p"
proof (induction ts arbitrary: out)
  case Nil
  then show ?case by (simp add: write_all_def)
next
  case (Cons t ts)
  from Cons.prems have "p \<noteq> fst t" and "p \<notin> fst ` set ts" by auto
  with Cons.IH [of "AList.update (fst t) (snd t) out"] show ?case
    by (simp add: write_all_def update_conv')
qed


lemma manifest_names_values:
  "manifest_names =
     [''train'', ''test'', ''val'', ''11F_MARY'', ''11H_ANTONY_ABBOT'', ''11H_ANTONY_OF_PADUA'',
      ''11H_AUGUSTINE'', ''11H_DOMINIC'', ''11H_FRANCIS'', ''11H_JEROME'',
      ''11H_JOHN_THE_BAPTIST'', ''11H_JOHN'', ''11H_JOSEPH'', ''11H_PAUL'', ''11H_PETER'',
      ''11H_SEBASTIAN'', ''11H_STEPHEN'', ''11HH_BARBARA'', ''11HH_CATHERINE'',
      ''11HH_MARY_MAGDALENE'', ''sample'']"
  by (simp add: manifest_names_def SAINT_CATEGORIES_def sanitize_filename_def)

lemma distinct_manifest_names: "distinct manifest_names"
  unfolding manifest_names_values by simp

lemma manifest_names_plain: "list_all (\<lambda>n. n \<noteq> [] \<and> hd n \<noteq> CHR ''/'') manifest_names"
  unfolding manifest_names_values by simp

lemma manifest_path_inj: "inj_on (manifest_path opts) (set manifest_names)"
proof (rule inj_onI)
  fix n n'
  assume n: "n \<in> set manifest_names" and n': "n' \<in> set manifest_names"
    and eq: "manifest_path opts n = manifest_path opts n'"
  from n n' manifest_names_plain
  have "n \<noteq> [] \<and> hd n \<noteq> CHR ''/''" "n' \<noteq> [] \<and> hd n' \<noteq> CHR ''/''"
    by (auto simp: list_all_iff)
  then have "n @ ''.json'' \<noteq> []" "hd (n @ ''.json'') \<noteq> CHR ''/''"
    "n' @ ''.json'' \<noteq> []" "hd (n' @ ''.json'') \<noteq> CHR ''/''"
    by simp_all
  from path_join_eq [OF this, of "opt_output_dir opts"] eq show "n = n'"
    by (simp add: manifest_path_def)
qed

lemma distinct_manifest_paths: "distinct (map (manifest_path opts) manifest_names)"
  by (simp add: distinct_map distinct_manifest_names manifest_path_inj)


lemma subseq_subset: "subseq xs ys \<Longrightarrow> set xs \<subseteq> set ys"
  by (induction rule: list_emb.induct) auto

lemma split_target_paths:
  "map fst (map (split_target opts dir) bs) = map (manifest_path opts) (map fst bs)"
  by (induction bs) (simp_all add: split_target_def manifest_path_def)

lemma saint_target_paths:
  "map fst (map (saint_target opts dir rows) cs)
     = map (manifest_path opts) (map sanitize_filename cs)"
  by (induction cs) (simp_all add: saint_target_def manifest_path_def)

lemma split_paths_subseq:
  "subseq (map fst (map (split_target opts dir)
             (filter (\<lambda>b. snd b \<noteq> [])
                [(''train'', b1), (''test'', b2), (''val'', b3)])))
     (map (manifest_path opts) [''train'', ''test'', ''val''])"
proof -
  have "subseq (map fst (filter (\<lambda>b. snd b \<noteq> ([] :: string list))
                  [(''train'', b1), (''test'', b2), (''val'', b3)]))
          (map fst [(''train'', b1), (''test'', b2), (''val'', b3)])"
    by (rule subseq_map [OF subseq_filter_left])
  then have "subseq (map fst (filter (\<lambda>b. snd b \<noteq> ([] :: string list))
                  [(''train'', b1), (''test'', b2), (''val'', b3)]))
          [''train'', ''test'', ''val'']"
    by simp
  from subseq_map [OF this, of "manifest_path opts"] show ?thesis
    unfolding split_target_paths .
qed

lemma saint_paths_subseq:
  "subseq (map fst (map (saint_target opts dir rows) (filter P SAINT_CATEGORIES)))
     (map (manifest_path opts) (map sanitize_filename SAINT_CATEGORIES))"
  unfolding saint_target_paths
  by (intro subseq_map subseq_filter_left)

lemma front_paths_subseq:
  "subseq (map fst (front_targets opts dir rows))
     (map (manifest_path opts) [''train'', ''test'', ''val'']
      @ map (manifest_path opts) (map sanitize_filename SAINT_CATEGORIES))"
proof -
  have e: "\<And>ys :: string list. subseq [] ys" by simp
  have a: "subseq (map fst (if opt_generate_splits opts \<or> opt_generate_all opts
      then map (split_target opts dir)
             (filter (\<lambda>b. snd b \<noteq> [])
                [(''train'', split_bucket rows ''train''), (''test'', split_bucket rows ''test''),
                 (''val'', split_bucket rows ''val'')])
      else []))
     (map (manifest_path opts) [''train'', ''test'', ''val''])"
    by (cases "opt_generate_splits opts \<or> opt_generate_all opts")
      (simp_all only: if_True if_False split_paths_subseq list.map(1) e)
  have b: "subseq (map fst (if opt_generate_saints opts \<or> opt_generate_all opts
        then map (saint_target opts dir rows)
               (filter (\<lambda>saint. category_bucket rows saint \<noteq> []) SAINT_CATEGORIES)
        else []))
      (map (manifest_path opts) (map sanitize_filename SAINT_CATEGORIES))"
    by (cases "opt_generate_saints opts \<or> opt_generate_all opts")
      (simp_all only: if_True if_False saint_paths_subseq list.map(1) e)
  show ?thesis
    unfolding front_targets_def map_append
    by (rule list_emb_append_mono [OF a b])
qed



lemma sample_path_not_front:
  "manifest_path opts ''sample'' \<notin> fst ` set (front_targets opts dir rows)"
proof
  assume "manifest_path opts ''sample'' \<in> fst ` set (front_targets opts dir rows)"
  then have "manifest_path opts ''sample'' \<in> set (map fst (front_targets opts dir rows))" by simp
  with subseq_subset [OF front_paths_subseq [of opts dir rows]]
  have "manifest_path opts ''sample''
          \<in> set (map (manifest_path opts) [''train'', ''test'', ''val'']
                 @ map (manifest_path opts) (map sanitize_filename SAINT_CATEGORIES))"
    by blast
  moreover have "distinct ((map (manifest_path opts) [''train'', ''test'', ''val'']
                 @ map (manifest_path opts) (map sanitize_filename SAINT_CATEGORIES))
                 @ [manifest_path opts ''sample''])"
    using distinct_manifest_paths [of opts] unfolding manifest_names_def map_append by simp
  ultimately show False by (simp only: distinct_append) auto
qed

lemma find_has_columns: "list_all has_columns rows \<Longrightarrow> find (\<lambda>r. \<not> has_columns r) rows = None"
  by (simp add: find_None_iff list_all_iff)

lemma write_all_append: "write_all (ts @ us) out = write_all us (write_all ts out)"
  by (simp add: write_all_def)

lemma sample_step_writes:
  "opt_force opts \<or> map_of out (manifest_path opts ''sample'') = None \<Longrightarrow>
   sample_step opts dir (map item_of rows) (out, n) =
     (write_all (if opt_sample_size opts > 0 then [sample_target opts dir rows] else []) out,
      n + length (if opt_sample_size opts > 0 then [sample_target opts dir rows] else []))"
  by (auto simp: sample_step_def Let_def written_built sample_target_def manifest_path_def
      write_all_def)

lemma generate_from_closed:
  assumes rows: "list_all has_columns rows"
    and free: "opt_force opts \<or> map_of out0 (manifest_path opts ''sample'') = None"
  shows "generate_from opts rows dir out0 =
           (Completed (length (targets opts dir rows)), write_all (targets opts dir rows) out0)"
proof -
  let ?three = "[(''train'', split_bucket rows ''train''), (''test'', split_bucket rows ''test''),
                 (''val'', split_bucket rows ''val'')]"
  let ?S = "if opt_generate_splits opts \<or> opt_generate_all opts
            then map (split_target opts dir) (filter (\<lambda>b. snd b \<noteq> []) ?three) else []"
  let ?A = "if opt_generate_saints opts \<or> opt_generate_all opts
            then map (saint_target opts dir rows)
                   (filter (\<lambda>saint. category_bucket rows saint \<noteq> []) SAINT_CATEGORIES)
            else []"
  let ?saints = "map (\<lambda>c. (c, category_bucket rows c)) SAINT_CATEGORIES"
  have load: "load_csv_data rows = Inr (?three, ?saints, map item_of rows)"
    unfolding load_csv_data_closed find_has_columns [OF rows] by simp
  have d: "list_all (\<lambda>b. map_of set_descriptions (fst b) \<noteq> None) ?three"
    by (simp add: set_descriptions_def)
  have sl: "(if opt_generate_splits opts \<or> opt_generate_all opts
             then split_loop opts dir ?three (out0, 0) else (None, out0, 0))
            = (None, write_all ?S out0, length ?S)"
    unfolding split_loop_fold [OF d] by (simp add: write_all_def)
  have sa: "\<And>out1. (if opt_generate_saints opts \<or> opt_generate_all opts
             then saint_loop opts dir ?saints SAINT_CATEGORIES (out1, 0) else (None, out1, 0))
            = (None, write_all ?A out1, length ?A)"
    unfolding saint_loop_fold [OF map_of_saint_data] by (simp add: write_all_def)
  have front: "front_targets opts dir rows = ?S @ ?A"
    by (simp add: front_targets_def)
  have free2: "opt_force opts
      \<or> map_of (write_all (front_targets opts dir rows) out0) (manifest_path opts ''sample'') = None"
    using free write_all_other [OF sample_path_not_front, of opts dir rows out0] by auto
  have "generate_from opts rows dir out0 =
          (case sample_step opts dir (map item_of rows)
                  (write_all ?A (write_all ?S out0), length ?S + length ?A) of
             (out3, n3) \<Rightarrow> (Completed n3, out3))"
    unfolding generate_from_def Let_def load sum.case prod.case sl option.case sa ..
  also have "write_all ?A (write_all ?S out0) = write_all (front_targets opts dir rows) out0"
    unfolding front write_all_append ..
  also have "length ?S + length ?A = length (front_targets opts dir rows)"
    unfolding front by simp
  finally show ?thesis
    unfolding sample_step_writes [OF free2] targets_def write_all_append by simp
qed

lemma no_manifest_no_sample:
  assumes "manifest_files (opt_output_dir opts) out = []"
  shows "map_of out (manifest_path opts ''sample'') = None"
proof (rule ccontr)
  assume "map_of out (manifest_path opts ''sample'') \<noteq> None"
  then have "manifest_path opts ''sample'' \<in> set (map fst out)"
    by (simp add: map_of_eq_None_iff)
  moreover have "path_name (manifest_path opts ''sample'') = ''sample.json''"
    unfolding manifest_path_def by (simp add: path_name_join)
  then have "suffix ''.json'' (path_name (manifest_path opts ''sample''))"
    by (simp add: suffix_def)
  moreover have "is_child (opt_output_dir opts) (manifest_path opts ''sample'')"
    unfolding manifest_path_def by (rule is_child_join) simp_all
  ultimately have "manifest_path opts ''sample'' \<in> set (manifest_files (opt_output_dir opts) out)"
    by (simp add: manifest_files_def)
  with assms show False by simp
qed

lemma generate_manifests_closed:
  assumes "csv w = Some rows" "images w = Some dir" "image_files (opt_images_dir opts) dir \<noteq> []"
    and "list_all has_columns rows"
    and "opt_force opts \<or> (case out_dir w of None \<Rightarrow> True | Some out \<Rightarrow> manifest_files (opt_output_dir opts) out = [])"
  shows "generate_manifests opts w =
           (Completed (length (targets opts dir rows)),
            w\<lparr>out_dir := Some (write_all (targets opts dir rows)
                                (case out_dir w of None \<Rightarrow> [] | Some out \<Rightarrow> out))\<rparr>)"
proof -
  let ?out0 = "case out_dir w of None \<Rightarrow> [] | Some out \<Rightarrow> out"
  from assms(5) have free: "opt_force opts \<or> map_of ?out0 (manifest_path opts ''sample'') = None"
    by (auto simp: no_manifest_no_sample split: option.splits)
  from assms(5) have pass: "\<not> (case out_dir w of None \<Rightarrow> False
                        | Some out \<Rightarrow> \<not> opt_force opts \<and> manifest_files (opt_output_dir opts) out \<noteq> [])"
    by (auto split: option.splits)
  show ?thesis
    unfolding generate_manifests_def
    using assms(1-3) pass by (simp add: generate_from_closed [OF assms(4) free])
qed


lemma image_files_subdirectory_example:
  "image_files ''/img'' [(''/img/sub/a.jpg'', Readable 1 1)] = []"
  "manifest_files ''/out'' [(''/out/old/train.json'', old_train)] = []"
  by (simp_all add: image_files_def manifest_files_def path_eval)






text \<open>
  C9: in sample mode (no split and no category manifests requested) with sample size N > 0,
  in a run that gets past the checks on the catalog, the images directory (it holds an image
  file directly) and the output directory (it holds no \<^verbatim>\<open>*.json\<close> file directly, or force is
  set), the driver generates exactly one manifest: it writes \<^verbatim>\<open>sample.json\<close>, and nothing
  else, with the manifest of id \<^verbatim>\<open>{base_url}/collections/sample.json\<close> built from the first N
  items of the full item list in catalog order; its canvases are those of the items among them
  that resolve, in that order. With sample size 3 and the catalog a, b, c, d, all resolving, the
  canvases are those of a, b, c.
\<close>

theorem sample_mode_first_items:
  assumes "csv w = Some rows" "images w = Some dir" "image_files (opt_images_dir opts) dir \<noteq> []"
    and "list_all has_columns rows"
    and "opt_force opts \<or> (case out_dir w of None \<Rightarrow> True | Some out \<Rightarrow> manifest_files (opt_output_dir opts) out = [])"
    and "\<not> opt_generate_splits opts" "\<not> opt_generate_saints opts" "\<not> opt_generate_all opts"
    and "opt_sample_size opts > 0"
  shows "(let r = create_multi_image_manifest ''sample''
                    (''Sample Collection ('' @ str_int (opt_sample_size opts) @ '' images)'')
                    (''Sample collection of '' @ str_int (opt_sample_size opts)
                       @ '' images from the ArtDL dataset'')
                    (take (nat (opt_sample_size opts)) (map item_of rows))
                    (opt_images_dir opts) (opt_base_url opts)
                    (path_join (opt_output_dir opts) ''sample.json'') dir
                    (case out_dir w of None \<Rightarrow> [] | Some out \<Rightarrow> out)
          in generate_manifests opts w = (Completed 1, w\<lparr>out_dir := Some (written r)\<rparr>)
             \<and> written r = AList.update (path_join (opt_output_dir opts) ''sample.json'') (returned r)
                             (case out_dir w of None \<Rightarrow> [] | Some out \<Rightarrow> out)
             \<and> manifest_id (returned r) = opt_base_url opts @ ''/collections/sample.json''
             \<and> map canvas_label (manifest_items (returned r)) =
                 map (\<lambda>i. [(''en'', [i])])
                   (filter (resolves dir (opt_images_dir opts))
                      (take (nat (opt_sample_size opts)) (map item_of rows))))"
proof -
  have t: "targets opts dir rows = [sample_target opts dir rows]"
    using assms(6-9) by (simp add: targets_def front_targets_def)
  have "generate_manifests opts w =
          (Completed 1,
           w\<lparr>out_dir := Some (write_all [sample_target opts dir rows]
                               (case out_dir w of None \<Rightarrow> [] | Some out \<Rightarrow> out))\<rparr>)"
    using generate_manifests_closed [OF assms(1-5)] unfolding t by simp
  then show ?thesis
    unfolding Let_def written_built
    by (simp add: write_all_def sample_target_def built_def create_multi_image_manifest_def
        Let_def built_labels)
qed

theorem sample_mode_first_items_witness:
  "fst (generate_manifests three_options abcd_world) = Completed 1
   \<and> map fst (the (out_dir (snd (generate_manifests three_options abcd_world))))
       = [''/out/sample.json'']
   \<and> map (\<lambda>f. map canvas_label (manifest_items (snd f)))
         (the (out_dir (snd (generate_manifests three_options abcd_world))))
       = [[[(''en'', [''a''])], [(''en'', [''b''])], [(''en'', [''c''])]]]"
proof -
  let ?rows = "[[''item'' \<mapsto> ''a'', ''set'' \<mapsto> ''train''], [''item'' \<mapsto> ''b'', ''set'' \<mapsto> ''test''],
                [''item'' \<mapsto> ''c'', ''set'' \<mapsto> ''val''], [''item'' \<mapsto> ''d'', ''set'' \<mapsto> ''train'']]"
  let ?dir = "[(''/img/a.jpg'', Readable 640 480), (''/img/b.png'', Readable 10 20),
               (''/img/c.jpg'', Unreadable ''truncated''), (''/img/d.jpg'', Readable 1 1)]"
  have g: "csv abcd_world = Some ?rows" "images abcd_world = Some ?dir"
    "image_files (opt_images_dir three_options) ?dir \<noteq> []" "list_all has_columns ?rows"
    "opt_force three_options
       \<or> (case out_dir abcd_world of None \<Rightarrow> True
           | Some out \<Rightarrow> manifest_files (opt_output_dir three_options) out = [])"
    "\<not> opt_generate_splits three_options" "\<not> opt_generate_saints three_options"
    "\<not> opt_generate_all three_options" "opt_sample_size three_options > 0"
    by (simp_all add: abcd_world_def three_options_def image_files_def path_suffix_def
        lower_def lower_char_def image_extensions_def Let_def has_columns_def path_eval)
  have items: "take (nat (opt_sample_size three_options)) (map item_of ?rows) = [''a'', ''b'', ''c'']"
    by (simp add: three_options_def item_of_def)
  have res: "filter (resolves ?dir (opt_images_dir three_options)) [''a'', ''b'', ''c'']
               = [''a'', ''b'', ''c'']"
    by (simp add: resolves_def find_image_file_def extensions_def path_exists_def path_eval
        three_options_def)
  have o: "out_dir abcd_world = None" "opt_output_dir three_options = ''/out''"
    by (simp_all add: abcd_world_def three_options_def)
  show ?thesis
    using sample_mode_first_items [OF g]
    unfolding Let_def items res o
    by (simp add: path_join_def)
qed

end
